theory Spec2Isabelle
  imports Main
begin

section \<open>Date normalisation (utils.NormalizeToESDate)\<close>

text \<open>
  \<^verbatim>\<open>NormalizeToESDate\<close> calls \<^verbatim>\<open>time.Parse(inputLayout, input)\<close> and, on success,
  \<^verbatim>\<open>t.UTC().Format(outputLayout)\<close>, with the two layout constants
  \<^verbatim>\<open>"2006-01-02T15:04:05"\<close> and \<^verbatim>\<open>"2006-01-02T15:04:05.000Z"\<close>.
  The functions of Go's \<^verbatim>\<open>time\<close> package are embedded for exactly these two layouts:
  the loop of \<^verbatim>\<open>time.Parse\<close> over the layout's chunks is unrolled into the chunk sequence
  year, \<^verbatim>\<open>-\<close>, month, \<^verbatim>\<open>-\<close>, day, \<^verbatim>\<open>T\<close>, hour, \<^verbatim>\<open>:\<close>, minute, \<^verbatim>\<open>:\<close>, second, and the helpers
  \<^verbatim>\<open>isDigit\<close>, \<^verbatim>\<open>getnum\<close>, \<^verbatim>\<open>atoi\<close>, \<^verbatim>\<open>skip\<close>, \<^verbatim>\<open>parseNanoseconds\<close>, \<^verbatim>\<open>daysIn\<close>, \<^verbatim>\<open>appendInt\<close>
  keep their names. All numbers that occur are non-negative, so they are naturals.
\<close>

datatype ParseError = Mismatch | OutOfRange string | ExtraText string

text \<open>
  A \<^verbatim>\<open>time.Time\<close> is represented by its civil fields in UTC. \<^verbatim>\<open>time.Parse\<close> checks every
  field's range before it calls \<^verbatim>\<open>Date\<close>, so \<^verbatim>\<open>Date\<close> does not normalise anything here; a layout
  without zone makes the result a UTC time, on which \<^verbatim>\<open>UTC()\<close> changes no field.
\<close>

record Time =
  Year :: nat
  Month :: nat
  Day :: nat
  Hour :: nat
  Minute :: nat
  Second :: nat
  Nanosecond :: nat

definition digit_char :: "char \<Rightarrow> bool" where
  "digit_char c = (48 \<le> (of_char c :: nat) \<and> (of_char c :: nat) \<le> 57)"

definition digit_val :: "char \<Rightarrow> nat" where
  "digit_val c = of_char c - 48"

definition isDigit :: "string \<Rightarrow> nat \<Rightarrow> bool" where
  "isDigit s i = (if length s \<le> i then False else digit_char (s ! i))"

text \<open>\<^verbatim>\<open>getnum(s, fixed)\<close>: one or two leading digits; with \<open>fixed\<close> exactly two.\<close>

definition getnum :: "string \<Rightarrow> bool \<Rightarrow> (nat \<times> string) option" where
  "getnum s fixed =
     (if \<not> isDigit s 0 then None
      else if \<not> isDigit s 1 then
        (if fixed then None else Some (digit_val (s ! 0), drop 1 s))
      else Some (digit_val (s ! 0) * 10 + digit_val (s ! 1), drop 2 s))"

text \<open>
  \<^verbatim>\<open>leadingInt\<close> consumes the leading digits; its overflow branch needs more than eighteen
  digits and is never reached from this layout (four digits for the year, at most nine
  for the fraction). \<^verbatim>\<open>atoi\<close> accepts an optional sign and requires that nothing is left.
\<close>

definition leadingInt :: "string \<Rightarrow> nat \<times> string" where
  "leadingInt s =
     (fold (\<lambda>c x. x * 10 + digit_val c) (takeWhile digit_char s) 0, dropWhile digit_char s)"

definition atoi :: "string \<Rightarrow> int option" where
  "atoi s =
     (let neg = (s \<noteq> [] \<and> hd s = CHR ''-'');
          s1 = (if s \<noteq> [] \<and> (hd s = CHR ''-'' \<or> hd s = CHR ''+'') then tl s else s);
          (q, rem) = leadingInt s1
      in if rem \<noteq> [] then None else Some (if neg then - int q else int q))"

text \<open>\<^verbatim>\<open>skip(value, prefix)\<close> for a prefix without spaces, as all prefixes of this layout are.\<close>

fun skip :: "string \<Rightarrow> string \<Rightarrow> string option" where
  "skip val [] = Some val"
| "skip [] (p # prefix) = None"
| "skip (v # val) (p # prefix) = (if v \<noteq> p then None else skip val prefix)"

definition commaOrPeriod :: "char \<Rightarrow> bool" where
  "commaOrPeriod c = (c = CHR ''.'' \<or> c = CHR '','')"

text \<open>
  \<^verbatim>\<open>parseNanoseconds(value, nbytes)\<close>: at most nine digits after the separator count, scaled
  to nanoseconds.
\<close>

definition parseNanoseconds :: "string \<Rightarrow> nat \<Rightarrow> nat option" where
  "parseNanoseconds val nbytes =
     (if val = [] \<or> \<not> commaOrPeriod (hd val) then None
      else
        let val1 = (if nbytes > 10 then take 10 val else val);
            nbytes1 = (if nbytes > 10 then 10 else nbytes)
        in case atoi (take (nbytes1 - 1) (drop 1 val1)) of
             None \<Rightarrow> None
           | Some ns \<Rightarrow> if ns < 0 then None else Some (nat ns * 10 ^ (10 - nbytes1)))"

definition isLeap :: "nat \<Rightarrow> bool" where
  "isLeap y = (y mod 4 = 0 \<and> (y mod 100 \<noteq> 0 \<or> y mod 400 = 0))"

definition daysIn :: "nat \<Rightarrow> nat \<Rightarrow> nat" where
  "daysIn m y =
     (if m = 2 then (if isLeap y then 29 else 28)
      else if m = 4 \<or> m = 6 \<or> m = 9 \<or> m = 11 then 30 else 31)"

text \<open>
  One iteration of the loop of \<^verbatim>\<open>time.Parse\<close>: the literal prefix before the chunk is
  skipped, then the chunk reads its field. A value out of range is reported before a
  malformed one.
\<close>

definition andThen :: "'e + 'a \<Rightarrow> ('a \<Rightarrow> 'e + 'b) \<Rightarrow> 'e + 'b" where
  "andThen m f = (case m of Inl e \<Rightarrow> Inl e | Inr x \<Rightarrow> f x)"

definition chunk ::
  "string \<Rightarrow> (string \<Rightarrow> ParseError + nat \<times> string) \<Rightarrow> string \<Rightarrow> ParseError + nat \<times> string" where
  "chunk prefix std val =
     (case skip val prefix of None \<Rightarrow> Inl Mismatch | Some val1 \<Rightarrow> std val1)"

text \<open>\<^verbatim>\<open>stdLongYear\<close>: four characters, the first a digit, read by \<^verbatim>\<open>atoi\<close>.\<close>

definition stdLongYear :: "string \<Rightarrow> ParseError + nat \<times> string" where
  "stdLongYear val =
     (if length val < 4 \<or> \<not> isDigit val 0 then Inl Mismatch
      else case atoi (take 4 val) of
             None \<Rightarrow> Inl Mismatch
           | Some y \<Rightarrow> Inr (nat y, drop 4 val))"

definition stdZeroMonth :: "string \<Rightarrow> ParseError + nat \<times> string" where
  "stdZeroMonth val =
     (case getnum val True of
        None \<Rightarrow> Inl Mismatch
      | Some (mo, rest) \<Rightarrow>
          if mo \<le> 0 \<or> 12 < mo then Inl (OutOfRange ''month'') else Inr (mo, rest))"

text \<open>Any two-digit day is read here; the day is validated against the month at the end.\<close>

definition stdZeroDay :: "string \<Rightarrow> ParseError + nat \<times> string" where
  "stdZeroDay val =
     (case getnum val True of None \<Rightarrow> Inl Mismatch | Some (d, rest) \<Rightarrow> Inr (d, rest))"

text \<open>The hour chunk \<^verbatim>\<open>15\<close> calls \<^verbatim>\<open>getnum(value, false)\<close>: one digit is enough.\<close>

definition stdHour :: "string \<Rightarrow> ParseError + nat \<times> string" where
  "stdHour val =
     (case getnum val False of
        None \<Rightarrow> Inl Mismatch
      | Some (h, rest) \<Rightarrow> if 24 \<le> h then Inl (OutOfRange ''hour'') else Inr (h, rest))"

definition stdZeroMinute :: "string \<Rightarrow> ParseError + nat \<times> string" where
  "stdZeroMinute val =
     (case getnum val True of
        None \<Rightarrow> Inl Mismatch
      | Some (mi, rest) \<Rightarrow> if 60 \<le> mi then Inl (OutOfRange ''minute'') else Inr (mi, rest))"

definition stdZeroSecond :: "string \<Rightarrow> ParseError + nat \<times> string" where
  "stdZeroSecond val =
     (case getnum val True of
        None \<Rightarrow> Inl Mismatch
      | Some (s, rest) \<Rightarrow> if 60 \<le> s then Inl (OutOfRange ''second'') else Inr (s, rest))"

text \<open>
  The special case at the end of the seconds chunk: a fractional second in the input that
  the layout does not mention is read all the same. The result is the nanoseconds and the
  rest of the input.
\<close>

definition fractionalSecond :: "string \<Rightarrow> ParseError + nat \<times> string" where
  "fractionalSecond val =
     (if length val \<ge> 2 \<and> commaOrPeriod (val ! 0) \<and> isDigit val 1 then
        (let n = 2 + length (takeWhile digit_char (drop 2 val))
         in case parseNanoseconds val n of
              None \<Rightarrow> Inl Mismatch
            | Some nsec \<Rightarrow> Inr (nsec, drop n val))
      else Inr (0, val))"

definition Date :: "nat \<Rightarrow> nat \<Rightarrow> nat \<Rightarrow> nat \<Rightarrow> nat \<Rightarrow> nat \<Rightarrow> nat \<Rightarrow> Time" where
  "Date y mo d h mi s ns =
     \<lparr>Year = y, Month = mo, Day = d, Hour = h, Minute = mi, Second = s, Nanosecond = ns\<rparr>"

text \<open>
  \<^verbatim>\<open>time.Parse(inputLayout, value)\<close>: the chunks in the layout's order; then nothing may be
  left of the input, and the day must exist in its month.
\<close>

definition Parse_inputLayout :: "string \<Rightarrow> ParseError + Time" where
  "Parse_inputLayout value0 =
     andThen (chunk [] stdLongYear value0) (\<lambda>(y, value1).
     andThen (chunk ''-'' stdZeroMonth value1) (\<lambda>(mo, value2).
     andThen (chunk ''-'' stdZeroDay value2) (\<lambda>(d, value3).
     andThen (chunk ''T'' stdHour value3) (\<lambda>(h, value4).
     andThen (chunk '':'' stdZeroMinute value4) (\<lambda>(mi, value5).
     andThen (chunk '':'' stdZeroSecond value5) (\<lambda>(s, value6).
     andThen (fractionalSecond value6) (\<lambda>(nsec, value7).
       if value7 \<noteq> [] then Inl (ExtraText value7)
       else if d < 1 \<or> daysIn mo y < d then Inl (OutOfRange ''day'')
       else Inr (Date y mo d h mi s nsec))))))))"

definition UTC :: "Time \<Rightarrow> Time" where
  "UTC t = t"

text \<open>\<^verbatim>\<open>appendInt(b, x, width)\<close>: the decimal digits of \<open>x\<close>, padded with zeros to \<open>width\<close>.\<close>

definition char_of_digit :: "nat \<Rightarrow> char" where
  "char_of_digit d = char_of (48 + d)"

fun decimal :: "nat \<Rightarrow> string" where
  "decimal n = (if n < 10 then [char_of_digit n] else decimal (n div 10) @ [char_of_digit (n mod 10)])"

declare decimal.simps [simp del]

definition appendInt :: "string \<Rightarrow> nat \<Rightarrow> nat \<Rightarrow> string" where
  "appendInt b x width = b @ replicate (width - length (decimal x)) CHR ''0'' @ decimal x"

text \<open>
  \<^verbatim>\<open>appendNano\<close> for the chunk \<^verbatim>\<open>.000\<close>: the separator and the first three of the nine
  digits of the nanoseconds.
\<close>

definition appendNano_000 :: "string \<Rightarrow> nat \<Rightarrow> string" where
  "appendNano_000 b nanosec = b @ CHR ''.'' # take 3 (appendInt [] nanosec 9)"

text \<open>
  \<^verbatim>\<open>t.Format(outputLayout)\<close>: the chunks of \<^verbatim>\<open>"2006-01-02T15:04:05.000Z"\<close> are the year
  in four digits, month, day, hour, minute and second in two, the fraction \<^verbatim>\<open>.000\<close>, and the
  literal \<^verbatim>\<open>Z\<close>.
\<close>

definition Format_outputLayout :: "Time \<Rightarrow> string" where
  "Format_outputLayout t =
     (let b0 = appendInt [] (Year t) 4;
          b1 = appendInt (b0 @ ''-'') (Month t) 2;
          b2 = appendInt (b1 @ ''-'') (Day t) 2;
          b3 = appendInt (b2 @ ''T'') (Hour t) 2;
          b4 = appendInt (b3 @ '':'') (Minute t) 2;
          b5 = appendInt (b4 @ '':'') (Second t) 2;
          b6 = appendNano_000 b5 (Nanosecond t)
      in b6 @ ''Z'')"

text \<open>The function of the repository: the pair of Go's two results.\<close>

definition NormalizeToESDate :: "string \<Rightarrow> string \<times> ParseError option" where
  "NormalizeToESDate input =
     (case Parse_inputLayout input of
        Inl err \<Rightarrow> ('''', Some err)
      | Inr t \<Rightarrow> (Format_outputLayout (UTC t), None))"

subsection \<open>The two patterns, as the specification words them\<close>

text \<open>
  The input pattern \<^verbatim>\<open>yyyy-MM-dd'T'HH:mm:ss\<close> read position by position: four digits, two
  digits, two digits, then the hour in \<open>w\<close> digits, two digits and two digits, with the
  separators between them, every field within its calendar range. \<open>input_pattern\<close> is the
  pattern itself (a two-digit hour and nothing after the seconds); \<open>lenient_input_pattern\<close>
  also admits a one-digit hour and a fractional second, a comma or period and at least one
  digit, after the seconds.
\<close>

definition number_of :: "string \<Rightarrow> nat" where
  "number_of ds = fold (\<lambda>c x. x * 10 + digit_val c) ds 0"

definition digits :: "nat \<Rightarrow> string \<Rightarrow> bool" where
  "digits n ds = (length ds = n \<and> list_all digit_char ds)"

definition fraction_suffix :: "string \<Rightarrow> bool" where
  "fraction_suffix f =
     (f = [] \<or> (2 \<le> length f \<and> commaOrPeriod (hd f) \<and> list_all digit_char (tl f)))"

definition timestamp_shape :: "nat \<Rightarrow> string \<Rightarrow> bool" where
  "timestamp_shape w s =
     (let y = take 4 s; mo = take 2 (drop 5 s); d = take 2 (drop 8 s);
          h = take w (drop 11 s); mi = take 2 (drop (12 + w) s); se = take 2 (drop (15 + w) s)
      in 17 + w \<le> length s \<and>
         digits 4 y \<and> s ! 4 = CHR ''-'' \<and> digits 2 mo \<and> s ! 7 = CHR ''-'' \<and> digits 2 d \<and>
         s ! 10 = CHR ''T'' \<and> digits w h \<and> s ! (11 + w) = CHR '':'' \<and> digits 2 mi \<and>
         s ! (14 + w) = CHR '':'' \<and> digits 2 se \<and>
         1 \<le> number_of mo \<and> number_of mo \<le> 12 \<and>
         1 \<le> number_of d \<and> number_of d \<le> daysIn (number_of mo) (number_of y) \<and>
         number_of h < 24 \<and> number_of mi < 60 \<and> number_of se < 60)"

definition input_pattern :: "string \<Rightarrow> bool" where
  "input_pattern s = (timestamp_shape 2 s \<and> length s = 19)"

definition lenient_input_pattern :: "string \<Rightarrow> bool" where
  "lenient_input_pattern s =
     ((timestamp_shape 2 s \<and> fraction_suffix (drop 19 s)) \<or>
      (timestamp_shape 1 s \<and> fraction_suffix (drop 18 s)))"

section \<open>Bulk ingestion (bulkIndex, flushBulk)\<close>

text \<open>
  The struct \<^verbatim>\<open>Article\<close>. Go's \<^verbatim>\<open>float64\<close> is the type parameter \<open>'f\<close>: no operation of the
  pipeline computes with the three numbers, it only hands them to \<^verbatim>\<open>json.Marshal\<close>.
\<close>

record 'f Article =
  ID :: string
  Title :: string
  Description :: string
  URL :: string
  PublicationDate :: string
  SourceName :: string
  Category :: "string list"
  RelevanceScore :: 'f
  Latitude :: 'f
  Longitude :: 'f
  LLMSummary :: string

text \<open>The map literal \<^verbatim>\<open>doc\<close> of \<^verbatim>\<open>bulkIndex\<close>, one field for each of its keys.\<close>

record 'f Doc =
  doc_id :: string
  doc_title :: string
  doc_description :: string
  doc_url :: string
  doc_publication_date :: string
  doc_source_name :: string
  doc_category :: "string list"
  doc_relevance_score :: 'f
  doc_latitude :: 'f
  doc_longitude :: 'f
  doc_location :: "'f \<times> 'f"

text \<open>
  The values of Go's \<^verbatim>\<open>error\<close> that the program produces, one constructor for each place
  that makes one. \<open>'e\<close> is the structured error detail of a bulk item, the
  \<^verbatim>\<open>map[string]interface{}\<close> that \<^verbatim>\<open>flushBulk\<close> prints into its error.
\<close>

datatype 'e error =
    ClientInitError string
  | SchemaCreateError string
  | FileNotFound string
  | FileReadError string
  | FileParseError string
  | DateParseError ParseError
  | MarshalError string
  | BulkSubmitError string
  | BulkDecodeError string
  | BulkItemError 'e

text \<open>
  The anonymous struct \<^verbatim>\<open>bulkResp\<close>. A nil \<^verbatim>\<open>Error\<close> map is \<open>None\<close>. An item is a Go map from
  the action name to the action's result; it is represented by its entries in the order in
  which the \<^verbatim>\<open>range\<close> loop of \<^verbatim>\<open>flushBulk\<close> visits them.
\<close>

record 'e action =
  Status :: int
  Error :: "'e option"

type_synonym 'e item = "(string \<times> 'e action) list"

record 'e bulkResp =
  Errors :: bool
  Items :: "'e item list"

text \<open>
  What one call of \<^verbatim>\<open>es.Bulk\<close> followed by the decoding of the response body gives: the
  transport fails, or the body does not decode, or there is a decoded response. The
  client is represented by the behaviour of its Bulk endpoint, a function of the payloads
  submitted before and of the payload submitted now.
\<close>

datatype 'e bulk_result = TransportFailed string | DecodeFailed string | Response "'e bulkResp"

type_synonym 'e bulk_client = "string list \<Rightarrow> string \<Rightarrow> 'e bulk_result"

text \<open>
  The state that \<^verbatim>\<open>bulkIndex\<close> and \<^verbatim>\<open>flushBulk\<close> share: the buffer \<^verbatim>\<open>buf\<close>, and the payloads
  handed to \<^verbatim>\<open>es.Bulk\<close> so far, oldest first.
\<close>

record run_state =
  buf :: string
  bulk_calls :: "string list"

definition indexName :: string where
  "indexName = ''inshorts-news''"

definition bulkSize :: nat where
  "bulkSize = 500"


text \<open>
  The two nested loops of \<^verbatim>\<open>flushBulk\<close> over the items and over the actions of an item:
  they return at the first action whose \<^verbatim>\<open>Error\<close> is not nil.
\<close>

fun action_error :: "(string \<times> 'e action) list \<Rightarrow> 'e option" where
  "action_error [] = None"
| "action_error ((name, action) # rest) =
     (case Error action of Some detail \<Rightarrow> Some detail | None \<Rightarrow> action_error rest)"

fun item_error :: "'e item list \<Rightarrow> 'e option" where
  "item_error [] = None"
| "item_error (item # rest) =
     (case action_error item of Some detail \<Rightarrow> Some detail | None \<Rightarrow> item_error rest)"

text \<open>The number of items that the outer loop visits before it returns or ends.\<close>

fun items_visited :: "'e item list \<Rightarrow> nat" where
  "items_visited [] = 0"
| "items_visited (item # rest) =
     (case action_error item of Some detail \<Rightarrow> 1 | None \<Rightarrow> 1 + items_visited rest)"

definition flushBulk :: "'e bulk_client \<Rightarrow> run_state \<Rightarrow> 'e error option \<times> run_state" where
  "flushBulk es st =
     (if length (buf st) = 0 then (None, st)
      else
        let sent = st\<lparr>bulk_calls := bulk_calls st @ [buf st]\<rparr>
        in case es (bulk_calls st) (buf st) of
             TransportFailed msg \<Rightarrow> (Some (BulkSubmitError msg), sent)
           | DecodeFailed msg \<Rightarrow> (Some (BulkDecodeError msg), sent)
           | Response bulkResp \<Rightarrow>
               (case (if Errors bulkResp then item_error (Items bulkResp) else None) of
                  Some detail \<Rightarrow> (Some (BulkItemError detail), sent)
                | None \<Rightarrow> (None, sent\<lparr>buf := []\<rparr>)))"

text \<open>
  The action-metadata line: \<^verbatim>\<open>fmt.Sprintf\<close> with three \<^verbatim>\<open>%s\<close> verbs, which copy the index
  name, the identifier and the newline as they are.
\<close>

definition meta_line :: "string \<Rightarrow> string" where
  \<open>meta_line ident =
     ''{ "index": { "_index": "'' @ indexName @ ''", "_id": "'' @ ident @ ''" } }'' @ [CHR 0x0A]\<close>

definition make_doc :: "'f Article \<Rightarrow> string \<Rightarrow> 'f Doc" where
  "make_doc a formattedDate =
     \<lparr>doc_id = ID a, doc_title = Title a, doc_description = Description a, doc_url = URL a,
      doc_publication_date = formattedDate, doc_source_name = SourceName a,
      doc_category = Category a, doc_relevance_score = RelevanceScore a,
      doc_latitude = Latitude a, doc_longitude = Longitude a,
      doc_location = (Latitude a, Longitude a)\<rparr>"

text \<open>
  The loop \<^verbatim>\<open>for i, a := range articles\<close>, from index \<open>i\<close> on. \<^verbatim>\<open>json.Marshal\<close> is the
  parameter \<open>Marshal\<close>. The batch size is the parameter \<open>B\<close>, so that properties can be
  stated for any batch size; the program runs the loop with \<open>bulkSize\<close>. (With \<open>B = 0\<close> the
  remainder operation of Go panics; every statement below has \<open>0 < B\<close>.)
\<close>

fun range_articles ::
  "nat \<Rightarrow> ('f Doc \<Rightarrow> string + string) \<Rightarrow> 'e bulk_client \<Rightarrow> nat \<Rightarrow> 'f Article list \<Rightarrow> run_state
     \<Rightarrow> 'e error option \<times> run_state" where
  "range_articles B Marshal es i [] st = (None, st)"
| "range_articles B Marshal es i (a # rest) st =
     (case NormalizeToESDate (PublicationDate a) of
        (formattedDate, Some err) \<Rightarrow> (Some (DateParseError err), st)
      | (formattedDate, None) \<Rightarrow>
          let st1 = st\<lparr>buf := buf st @ meta_line (ID a)\<rparr>
          in case Marshal (make_doc a formattedDate) of
               Inl err \<Rightarrow> (Some (MarshalError err), st1)
             | Inr body \<Rightarrow>
                 let st2 = st1\<lparr>buf := buf st1 @ body @ [CHR 0x0A]\<rparr>
                 in if (i + 1) mod B = 0 then
                      (case flushBulk es st2 of
                         (Some err, st3) \<Rightarrow> (Some err, st3)
                       | (None, st3) \<Rightarrow> range_articles B Marshal es (i + 1) rest st3)
                    else range_articles B Marshal es (i + 1) rest st2)"

definition bulkIndex_sized ::
  "nat \<Rightarrow> ('f Doc \<Rightarrow> string + string) \<Rightarrow> 'e bulk_client \<Rightarrow> 'f Article list
     \<Rightarrow> 'e error option \<times> run_state" where
  "bulkIndex_sized B Marshal es articles =
     (case range_articles B Marshal es 0 articles \<lparr>buf = [], bulk_calls = []\<rparr> of
        (Some err, st) \<Rightarrow> (Some err, st)
      | (None, st) \<Rightarrow> flushBulk es st)"

definition bulkIndex ::
  "('f Doc \<Rightarrow> string + string) \<Rightarrow> 'e bulk_client \<Rightarrow> 'f Article list \<Rightarrow> 'e error option \<times> run_state" where
  "bulkIndex = bulkIndex_sized bulkSize"

subsection \<open>Batches, as the specification words them\<close>

text \<open>
  A record is ingestible when its date normalises and its document serialises. The lines
  it contributes to a payload are its action-metadata line and its document line. A
  submission is accepted when \<^verbatim>\<open>flushBulk\<close> returns nil for it.
\<close>

definition normalizes :: "'f Article \<Rightarrow> bool" where
  "normalizes a = (snd (NormalizeToESDate (PublicationDate a)) = None)"

definition serialises :: "('f Doc \<Rightarrow> string + string) \<Rightarrow> 'f Article \<Rightarrow> bool" where
  "serialises Marshal a =
     (case Marshal (make_doc a (fst (NormalizeToESDate (PublicationDate a)))) of
        Inl err \<Rightarrow> False | Inr body \<Rightarrow> True)"

definition record_lines :: "('f Doc \<Rightarrow> string + string) \<Rightarrow> 'f Article \<Rightarrow> string" where
  "record_lines Marshal a =
     meta_line (ID a) @
     (case Marshal (make_doc a (fst (NormalizeToESDate (PublicationDate a)))) of
        Inl err \<Rightarrow> [] | Inr body \<Rightarrow> body) @ [CHR 0x0A]"

definition payload_of :: "('f Doc \<Rightarrow> string + string) \<Rightarrow> 'f Article list \<Rightarrow> string" where
  "payload_of Marshal records = concat (map (record_lines Marshal) records)"

definition accepted :: "'e bulk_result \<Rightarrow> bool" where
  "accepted r =
     (case r of
        TransportFailed msg \<Rightarrow> False
      | DecodeFailed msg \<Rightarrow> False
      | Response resp \<Rightarrow> \<not> Errors resp \<or> item_error (Items resp) = None)"

text \<open>The store accepts the payloads \<open>later\<close> one after the other, after the payloads \<open>earlier\<close>.\<close>

fun accepts_all :: "'e bulk_client \<Rightarrow> string list \<Rightarrow> string list \<Rightarrow> bool" where
  "accepts_all es earlier [] = True"
| "accepts_all es earlier (p # later) =
     (accepted (es earlier p) \<and> accepts_all es (earlier @ [p]) later)"

text \<open>
  \<open>chunks B xs\<close> cuts \<open>xs\<close> into consecutive batches of \<open>B\<close> elements, the last one holding
  what is left; \<open>whole_batches\<close> are the batches of exactly \<open>B\<close> and \<open>remainder\<close> is what
  follows them.
\<close>

function chunks :: "nat \<Rightarrow> 'a list \<Rightarrow> 'a list list" where
  "chunks B xs = (if B = 0 \<or> xs = [] then [] else take B xs # chunks B (drop B xs))"
  by pat_completeness auto
termination
  by (relation "measure (\<lambda>(B, xs). length xs)") auto

declare chunks.simps [simp del]

definition whole_batches :: "nat \<Rightarrow> 'a list \<Rightarrow> 'a list list" where
  "whole_batches B xs = take (length xs div B) (chunks B xs)"

definition remainder :: "nat \<Rightarrow> 'a list \<Rightarrow> 'a list" where
  "remainder B xs = drop (B * (length xs div B)) xs"

section \<open>Index creation and the driver (createMappingsSettings, loadArticles, main)\<close>

text \<open>
  \<^verbatim>\<open>es.Indices.Exists\<close> gives a response with a status code, or an error and no response.
  \<^verbatim>\<open>req.Do\<close> of the create request gives an error, or a response that is an error response
  or not.
\<close>

datatype exists_result = ExistsFailed string | ExistsStatus int

datatype create_result = CreateFailed string | CreateResponse bool

text \<open>
  What the run does to the outside, in order. The body of the create request is the
  constant \<^verbatim>\<open>settingsAndmappings\<close> of the source, a JSON literal that no operation inspects;
  the event names the index only.
\<close>

datatype event =
    ExistsRequest string
  | CreateRequest string
  | BulkRequest string
  | Log_Error string
  | Log_Info string
  | Log_Fatal string

datatype 'a outcome = Panic | Returned 'a


text \<open>
  Everything outside the program that a run depends on: the result of
  \<^verbatim>\<open>elasticsearch.NewClient\<close>, the endpoints of the client, the file system calls and the two
  functions of \<^verbatim>\<open>encoding/json\<close>.
\<close>

record ('f, 'e) environment =
  newClient :: "string option"
  indicesExists :: "string \<Rightarrow> exists_result"
  indicesCreate :: "string \<Rightarrow> create_result"
  osStat :: "string \<Rightarrow> string option"
  osReadFile :: "string \<Rightarrow> string + string"
  jsonUnmarshal :: "string \<Rightarrow> string + 'f Article list"
  jsonMarshal :: "'f Doc \<Rightarrow> string + string"
  esBulk :: "'e bulk_client"

text \<open>
  The error of the existence check is discarded (\<^verbatim>\<open>exists, _ :=\<close>); when the check failed
  there is no response, and reading its status code dereferences nil. The deferred
  \<^verbatim>\<open>res.Body.Close()\<close> has no effect that is modelled.
\<close>

definition createMappingsSettings ::
  "string \<Rightarrow> ('f, 'e) environment \<Rightarrow> 'e error option outcome \<times> event list" where
  "createMappingsSettings index es =
     (case indicesExists es index of
        ExistsFailed msg \<Rightarrow> (Panic, [ExistsRequest index])
      | ExistsStatus code \<Rightarrow>
          if code = 200 then (Returned None, [ExistsRequest index])
          else
            (case indicesCreate es index of
               CreateFailed msg \<Rightarrow>
                 (Returned (Some (SchemaCreateError msg)), [ExistsRequest index, CreateRequest index])
             | CreateResponse isError \<Rightarrow>
                 (Returned None,
                  [ExistsRequest index, CreateRequest index,
                   if isError then Log_Error ''error response''
                   else Log_Info ''index created successfully''])))"




section \<open>Well-formed JSON\<close>

text \<open>
  The reference notion the payload is measured against: the grammar of JSON texts
  (RFC 8259) over bytes, as a scanner that reads one byte at a time and keeps the stack of
  the objects and arrays it is inside, the way the scanner of Go's \<^verbatim>\<open>encoding/json\<close> decides
  \<^verbatim>\<open>json.Valid\<close>. Inside a string a byte below \<^verbatim>\<open>0x20\<close> is refused, a double quote ends the
  string and a backslash starts an escape; how bytes from \<^verbatim>\<open>0x80\<close> on encode characters is
  not examined.
\<close>

datatype parseState = parseObjectKey | parseObjectValue | parseArrayValue

datatype step =
    stateBeginValue | stateBeginValueOrEmpty | stateBeginStringOrEmpty | stateBeginString
  | stateInString | stateInStringEsc | stateInStringEscU nat
  | stateNeg | state0 | state1 | stateDot | stateDot0 | stateE | stateESign | stateE0
  | stateLiteral string
  | stateEndValue | stateEndTop

text \<open>The step to take at the next byte and the stack of open containers, innermost first.\<close>

type_synonym scanner = "step \<times> parseState list"

definition isSpace :: "char \<Rightarrow> bool" where
  "isSpace c = (c = CHR 0x20 \<or> c = CHR 0x09 \<or> c = CHR 0x0D \<or> c = CHR 0x0A)"

definition isDigit19 :: "char \<Rightarrow> bool" where
  "isDigit19 c = (CHR ''1'' = c \<or> c \<in> set ''23456789'')"

definition isDigit09 :: "char \<Rightarrow> bool" where
  "isDigit09 c = (c = CHR ''0'' \<or> isDigit19 c)"

definition isHex :: "char \<Rightarrow> bool" where
  "isHex c = (isDigit09 c \<or> c \<in> set ''abcdefABCDEF'')"

text \<open>After a container is closed: the top-level value is complete when the stack is empty.\<close>

definition popParseState :: "parseState list \<Rightarrow> scanner" where
  "popParseState stack =
     (let rest = tl stack in (if rest = [] then stateEndTop else stateEndValue, rest))"

definition endValue :: "parseState list \<Rightarrow> char \<Rightarrow> scanner option" where
  "endValue stack c =
     (case stack of
        [] \<Rightarrow> (if isSpace c then Some (stateEndTop, []) else None)
      | ps # rest \<Rightarrow>
          if isSpace c then Some (stateEndValue, stack)
          else (case ps of
                  parseObjectKey \<Rightarrow>
                    if c = CHR '':'' then Some (stateBeginValue, parseObjectValue # rest) else None
                | parseObjectValue \<Rightarrow>
                    if c = CHR '','' then Some (stateBeginString, parseObjectKey # rest)
                    else if c = CHR ''}'' then Some (popParseState stack)
                    else None
                | parseArrayValue \<Rightarrow>
                    if c = CHR '','' then Some (stateBeginValue, stack)
                    else if c = CHR '']'' then Some (popParseState stack)
                    else None))"

definition beginValue :: "parseState list \<Rightarrow> char \<Rightarrow> scanner option" where
  "beginValue stack c =
     (if isSpace c then Some (stateBeginValue, stack)
      else if c = CHR ''{'' then Some (stateBeginStringOrEmpty, parseObjectKey # stack)
      else if c = CHR ''['' then Some (stateBeginValueOrEmpty, parseArrayValue # stack)
      else if c = CHR 0x22 then Some (stateInString, stack)
      else if c = CHR ''-'' then Some (stateNeg, stack)
      else if c = CHR ''0'' then Some (state0, stack)
      else if c = CHR ''t'' then Some (stateLiteral ''rue'', stack)
      else if c = CHR ''f'' then Some (stateLiteral ''alse'', stack)
      else if c = CHR ''n'' then Some (stateLiteral ''ull'', stack)
      else if isDigit19 c then Some (state1, stack)
      else None)"

definition beginString :: "parseState list \<Rightarrow> char \<Rightarrow> scanner option" where
  "beginString stack c =
     (if isSpace c then Some (stateBeginString, stack)
      else if c = CHR 0x22 then Some (stateInString, stack)
      else None)"

definition afterInt :: "parseState list \<Rightarrow> char \<Rightarrow> scanner option" where
  "afterInt stack c =
     (if c = CHR ''.'' then Some (stateDot, stack)
      else if c = CHR ''e'' \<or> c = CHR ''E'' then Some (stateE, stack)
      else endValue stack c)"

definition afterSign :: "parseState list \<Rightarrow> char \<Rightarrow> scanner option" where
  "afterSign stack c = (if isDigit09 c then Some (stateE0, stack) else None)"

fun scan_step :: "scanner \<Rightarrow> char \<Rightarrow> scanner option" where
  "scan_step (stateBeginValue, stack) c = beginValue stack c"
| "scan_step (stateBeginValueOrEmpty, stack) c =
     (if isSpace c then Some (stateBeginValueOrEmpty, stack)
      else if c = CHR '']'' then endValue stack c
      else beginValue stack c)"
| "scan_step (stateBeginStringOrEmpty, stack) c =
     (if isSpace c then Some (stateBeginStringOrEmpty, stack)
      else if c = CHR ''}'' then endValue (parseObjectValue # tl stack) c
      else beginString stack c)"
| "scan_step (stateBeginString, stack) c = beginString stack c"
| "scan_step (stateInString, stack) c =
     (if c = CHR 0x22 then Some (stateEndValue, stack)
      else if c = CHR 0x5C then Some (stateInStringEsc, stack)
      else if (of_char c :: nat) < 0x20 then None
      else Some (stateInString, stack))"
| "scan_step (stateInStringEsc, stack) c =
     (if c \<in> set ''bfnrt/'' \<or> c = CHR 0x5C \<or> c = CHR 0x22 then Some (stateInString, stack)
      else if c = CHR ''u'' then Some (stateInStringEscU 4, stack)
      else None)"
| "scan_step (stateInStringEscU n, stack) c =
     (if isHex c then Some (if n \<le> 1 then stateInString else stateInStringEscU (n - 1), stack)
      else None)"
| "scan_step (stateNeg, stack) c =
     (if c = CHR ''0'' then Some (state0, stack)
      else if isDigit19 c then Some (state1, stack)
      else None)"
| "scan_step (state1, stack) c =
     (if isDigit09 c then Some (state1, stack) else afterInt stack c)"
| "scan_step (state0, stack) c = afterInt stack c"
| "scan_step (stateDot, stack) c = (if isDigit09 c then Some (stateDot0, stack) else None)"
| "scan_step (stateDot0, stack) c =
     (if isDigit09 c then Some (stateDot0, stack)
      else if c = CHR ''e'' \<or> c = CHR ''E'' then Some (stateE, stack)
      else endValue stack c)"
| "scan_step (stateE, stack) c =
     (if c = CHR ''+'' \<or> c = CHR ''-'' then Some (stateESign, stack) else afterSign stack c)"
| "scan_step (stateESign, stack) c = afterSign stack c"
| "scan_step (stateE0, stack) c =
     (if isDigit09 c then Some (stateE0, stack) else endValue stack c)"
| "scan_step (stateLiteral expected, stack) c =
     (case expected of
        [] \<Rightarrow> endValue stack c
      | e # rest \<Rightarrow>
          if c = e then Some (if rest = [] then stateEndValue else stateLiteral rest, stack)
          else None)"
| "scan_step (stateEndValue, stack) c = endValue stack c"
| "scan_step (stateEndTop, stack) c = (if isSpace c then Some (stateEndTop, stack) else None)"

fun scan :: "scanner \<Rightarrow> string \<Rightarrow> scanner option" where
  "scan s [] = Some s"
| "scan s (c # cs) = (case scan_step s c of None \<Rightarrow> None | Some s' \<Rightarrow> scan s' cs)"

text \<open>
  A text is valid when the scanner reads all of it and, at a space read after it, has
  completed the top-level value.
\<close>

definition valid :: "string \<Rightarrow> bool" where
  "valid data =
     (case scan (stateBeginValue, []) (data @ [CHR 0x20]) of
        None \<Rightarrow> False
      | Some (st, stack) \<Rightarrow> st = stateEndTop)"

definition json_object :: "string \<Rightarrow> bool" where
  "json_object data =
     (valid data \<and> (case dropWhile isSpace data of [] \<Rightarrow> False | c # cs \<Rightarrow> c = CHR ''{''))"

text \<open>
  A payload of one object per line: cut after each line feed, every piece ends with a line
  feed and is a JSON object before it.
\<close>

fun splitAfter :: "string \<Rightarrow> string \<Rightarrow> string list" where
  "splitAfter line [] = (if line = [] then [] else [line])"
| "splitAfter line (c # cs) =
     (if c = CHR 0x0A then (line @ [c]) # splitAfter [] cs else splitAfter (line @ [c]) cs)"

definition json_object_line :: "string \<Rightarrow> bool" where
  "json_object_line line = (line \<noteq> [] \<and> last line = CHR 0x0A \<and> json_object (butlast line))"

definition object_per_line :: "string \<Rightarrow> bool" where
  "object_per_line payload = list_all json_object_line (splitAfter [] payload)"

text \<open>
  The characters the identifier must avoid, as claimed (double quote, backslash, line
  feed) and as the grammar has it (double quote, backslash, any byte below \<^verbatim>\<open>0x20\<close>).
\<close>

definition no_quote_backslash_newline :: "string \<Rightarrow> bool" where
  "no_quote_backslash_newline ident =
     list_all (\<lambda>c. c \<noteq> CHR 0x22 \<and> c \<noteq> CHR 0x5C \<and> c \<noteq> CHR 0x0A) ident"

definition plain_string_content :: "string \<Rightarrow> bool" where
  "plain_string_content ident =
     list_all (\<lambda>c. c \<noteq> CHR 0x22 \<and> c \<noteq> CHR 0x5C \<and> 0x20 \<le> (of_char c :: nat)) ident"

text \<open>
  The serialiser stands for \<^verbatim>\<open>json.Marshal\<close>, which writes a document as one JSON object
  without a line feed; that is what a payload of well-formed lines asks of it.
\<close>

definition marshals_object_line :: "('f Doc \<Rightarrow> string + string) \<Rightarrow> 'f Article \<Rightarrow> bool" where
  "marshals_object_line Marshal a =
     (case Marshal (make_doc a (fst (NormalizeToESDate (PublicationDate a)))) of
        Inl err \<Rightarrow> False
      | Inr body \<Rightarrow> json_object body \<and> CHR 0x0A \<notin> set body)"

section \<open>Concrete inputs\<close>

text \<open>
  An article with a given identifier and publication date, a serialiser that always
  succeeds, a store that accepts every submission and one that rejects every submission
  with an item error: the inputs of the closed instances below.
\<close>

definition article :: "string \<Rightarrow> string \<Rightarrow> unit Article" where
  "article ident date =
     \<lparr>ID = ident, Title = ''t'', Description = ''d'', URL = ''u'', PublicationDate = date,
      SourceName = ''s'', Category = [], RelevanceScore = (), Latitude = (), Longitude = (),
      LLMSummary = ''''\<rparr>"

definition marshal_id :: "unit Doc \<Rightarrow> string + string" where
  "marshal_id d = Inr (doc_id d)"

definition accepting_store :: "string bulk_client" where
  "accepting_store earlier payload = Response \<lparr>Errors = False, Items = []\<rparr>"

definition rejecting_store :: "string bulk_client" where
  "rejecting_store earlier payload =
     Response \<lparr>Errors = True,
               Items = [[(''index'', \<lparr>Status = 400, Error = Some ''mapper_parsing_exception''\<rparr>)]]\<rparr>"


text \<open>
  An environment in which the client is created, the existence check and the creation of
  the index answer as given, and the file holds one article.
\<close>

definition sample_env :: "exists_result \<Rightarrow> create_result \<Rightarrow> (unit, string) environment" where
  "sample_env ex cr =
     \<lparr>newClient = None, indicesExists = (\<lambda>index. ex), indicesCreate = (\<lambda>index. cr),
      osStat = (\<lambda>p. None), osReadFile = (\<lambda>p. Inr ''[{}]''),
      jsonUnmarshal = (\<lambda>data. Inr [article ''1'' ''2024-01-15T10:30:00'']),
      jsonMarshal = marshal_id, esBulk = accepting_store\<rparr>"

text \<open>A serialiser that writes every document as the empty JSON object.\<close>

definition marshal_empty_object :: "unit Doc \<Rightarrow> string + string" where
  "marshal_empty_object d = Inr ''{}''"

section \<open>Properties of the date normaliser\<close>

lemma replicate_numeral_unfold: "replicate (numeral k) x = x # replicate (pred_numeral k) x"
  by (simp add: numeral_eq_Suc)

lemma char_of_digit_simps:
  "char_of_digit 0 = CHR ''0''" "char_of_digit (Suc 0) = CHR ''1''" "char_of_digit 2 = CHR ''2''"
  "char_of_digit 3 = CHR ''3''" "char_of_digit 4 = CHR ''4''" "char_of_digit 5 = CHR ''5''"
  "char_of_digit 6 = CHR ''6''" "char_of_digit 7 = CHR ''7''" "char_of_digit 8 = CHR ''8''"
  "char_of_digit 9 = CHR ''9''" "char_of_digit (Suc (Suc 0)) = CHR ''2''"
  by (simp_all add: char_of_digit_def char_of_def bit_Suc_0_iff numeral_2_eq_2 [symmetric])

lemma char_of_digit_val: "digit_char c \<Longrightarrow> char_of_digit (digit_val c) = c"
  by (simp add: char_of_digit_def digit_val_def digit_char_def)

lemma digit_val_less: "digit_char c \<Longrightarrow> digit_val c < 10"
  by (auto simp add: digit_val_def digit_char_def)

lemma digit_char_not_sign: "digit_char c \<Longrightarrow> c \<noteq> CHR ''-'' \<and> c \<noteq> CHR ''+''"
  by (auto simp add: digit_char_def)

lemma decimal_step:
  "k < 10 \<Longrightarrow> decimal (n * 10 + k) = (if n = 0 then [char_of_digit k] else decimal n @ [char_of_digit k])"
  by (subst decimal.simps) auto

lemma appendInt_step:
  assumes "k < 10" "0 < w"
  shows "appendInt b (n * 10 + k) (Suc w) = appendInt b n w @ [char_of_digit k]"
proof (cases "n = 0")
  case True
  have "decimal 0 = [CHR ''0'']" by (subst decimal.simps) (simp add: char_of_digit_simps)
  with True assms show ?thesis
    by (cases w) (simp_all add: appendInt_def decimal_step [of k 0, simplified] replicate_append_same)
next
  case False
  with assms show ?thesis
    by (simp add: appendInt_def decimal_step Suc_diff_le)
qed

lemma appendInt_1: "k < 10 \<Longrightarrow> appendInt b k (Suc 0) = b @ [char_of_digit k]"
  by (simp add: appendInt_def decimal.simps [of k])

lemma appendInt_2:
  assumes "digit_char c1" "digit_char c2"
  shows "appendInt b (digit_val c1 * 10 + digit_val c2) 2 = b @ [c1, c2]"
proof -
  have "appendInt b (digit_val c1 * 10 + digit_val c2) (Suc (Suc 0)) =
        appendInt b (digit_val c1) (Suc 0) @ [char_of_digit (digit_val c2)]"
    using assms by (intro appendInt_step) (simp_all add: digit_val_less)
  with assms show ?thesis
    by (simp add: numeral_2_eq_2 appendInt_1 digit_val_less char_of_digit_val)
qed

lemma appendInt_4:
  assumes "digit_char c1" "digit_char c2" "digit_char c3" "digit_char c4"
  shows "appendInt b (((digit_val c1 * 10 + digit_val c2) * 10 + digit_val c3) * 10 + digit_val c4) 4
         = b @ [c1, c2, c3, c4]"
proof -
  have two: "appendInt b (digit_val c1 * 10 + digit_val c2) (Suc (Suc 0)) = b @ [c1, c2]"
    using appendInt_2 [OF assms(1,2)] by (simp add: numeral_2_eq_2)
  have "appendInt b ((digit_val c1 * 10 + digit_val c2) * 10 + digit_val c3) (Suc (Suc (Suc 0))) =
        appendInt b (digit_val c1 * 10 + digit_val c2) (Suc (Suc 0)) @ [char_of_digit (digit_val c3)]"
    using assms by (intro appendInt_step) (simp_all add: digit_val_less)
  then have three:
    "appendInt b ((digit_val c1 * 10 + digit_val c2) * 10 + digit_val c3) (Suc (Suc (Suc 0))) = b @ [c1, c2, c3]"
    using assms by (simp add: two char_of_digit_val)
  have "appendInt b (((digit_val c1 * 10 + digit_val c2) * 10 + digit_val c3) * 10 + digit_val c4)
          (Suc (Suc (Suc (Suc 0)))) =
        appendInt b ((digit_val c1 * 10 + digit_val c2) * 10 + digit_val c3) (Suc (Suc (Suc 0)))
          @ [char_of_digit (digit_val c4)]"
    using assms by (intro appendInt_step) (simp_all add: digit_val_less)
  moreover have "(4::nat) = Suc (Suc (Suc (Suc 0)))" by simp
  ultimately show ?thesis
    using assms by (simp only: three char_of_digit_val append_assoc append.simps)
qed

lemma appendNano_000_zero: "appendNano_000 b 0 = b @ ''.000''"
  by (simp add: appendNano_000_def appendInt_def decimal.simps [of 0] char_of_digit_simps replicate_numeral_unfold)

lemma list19:
  "length s = 19 \<Longrightarrow> \<exists>c0 c1 c2 c3 c4 c5 c6 c7 c8 c9 c10 c11 c12 c13 c14 c15 c16 c17 c18.
     s = [c0, c1, c2, c3, c4, c5, c6, c7, c8, c9, c10, c11, c12, c13, c14, c15, c16, c17, c18]"
  by (simp add: eval_nat_numeral length_Suc_conv) blast

lemma isDigit_simps:
  "isDigit [] i = False"
  "isDigit (c # cs) 0 = digit_char c"
  "isDigit (c # cs) (Suc i) = isDigit cs i"
  "isDigit (c # cs) 1 = isDigit cs 0"
  by (simp_all add: isDigit_def)

lemma skip_one: "skip v [c] = Some r \<longleftrightarrow> v = c # r"
  by (cases v) auto

lemma getnum_True_Some:
  "getnum v True = Some (n, r) \<longleftrightarrow>
     (\<exists>a b. v = a # b # r \<and> digit_char a \<and> digit_char b \<and> n = digit_val a * 10 + digit_val b)"
  by (cases v; cases "tl v") (auto simp add: getnum_def isDigit_simps)

lemma getnum_False_Some:
  "getnum v False = Some (n, r) \<longleftrightarrow>
     (\<exists>a b. v = a # b # r \<and> digit_char a \<and> digit_char b \<and> n = digit_val a * 10 + digit_val b) \<or>
     (\<exists>a. v = a # r \<and> digit_char a \<and> \<not> isDigit r 0 \<and> n = digit_val a)"
  by (cases v; cases "tl v") (auto simp add: getnum_def isDigit_simps)

lemma atoi_digits4:
  "digit_char a \<Longrightarrow> atoi [a, b, c, d] =
     (if digit_char b \<and> digit_char c \<and> digit_char d
      then Some (int (((digit_val a * 10 + digit_val b) * 10 + digit_val c) * 10 + digit_val d))
      else None)"
  by (auto simp add: atoi_def leadingInt_def digit_char_not_sign Let_def)

lemma stdLongYear_Inr:
  "stdLongYear v = Inr (y, r) \<longleftrightarrow>
     (\<exists>a b c d. v = a # b # c # d # r \<and> digit_char a \<and> digit_char b \<and> digit_char c \<and> digit_char d \<and>
        y = ((digit_val a * 10 + digit_val b) * 10 + digit_val c) * 10 + digit_val d)"
proof (cases "length v < 4")
  case True
  then show ?thesis by (auto simp add: stdLongYear_def)
next
  case False
  then obtain a b c d r' where v: "v = a # b # c # d # r'"
    by (cases v; cases "tl v"; cases "tl (tl v)"; cases "tl (tl (tl v))") auto
  show ?thesis
  proof (cases "digit_char a")
    case True
    show ?thesis
      by (auto simp add: v stdLongYear_def isDigit_simps True atoi_digits4 [OF True])
  next
    case False
    then show ?thesis by (simp add: v stdLongYear_def isDigit_simps)
  qed
qed

lemma andThen_Inr [simp]: "andThen (Inr x) f = f x"
  by (simp add: andThen_def)

lemma andThen_Inl [simp]: "andThen (Inl e) f = Inl e"
  by (simp add: andThen_def)

lemma getnum_True_digits:
  "digit_char a \<Longrightarrow> digit_char b \<Longrightarrow> getnum (a # b # r) fixed = Some (digit_val a * 10 + digit_val b, r)"
  by (simp add: getnum_def isDigit_simps)

lemma stdLongYear_digits:
  "digit_char a \<Longrightarrow> digit_char b \<Longrightarrow> digit_char c \<Longrightarrow> digit_char d \<Longrightarrow>
   stdLongYear (a # b # c # d # r) =
     Inr (((digit_val a * 10 + digit_val b) * 10 + digit_val c) * 10 + digit_val d, r)"
  by (simp add: stdLongYear_def isDigit_simps atoi_digits4)

lemma fractionalSecond_Nil: "fractionalSecond [] = Inr (0, [])"
  by (simp add: fractionalSecond_def)

lemma appendInt_4_norm:
  assumes "digit_char c1" "digit_char c2" "digit_char c3" "digit_char c4"
  shows "appendInt b (1000 * digit_val c1 + 100 * digit_val c2 + digit_val c3 * 10 + digit_val c4) 4
         = b @ [c1, c2, c3, c4]"
  using appendInt_4 [OF assms, of b] by simp

lemma NormalizeToESDate_input_pattern:
  assumes "input_pattern s"
  shows "NormalizeToESDate s = (s @ ''.000Z'', None)"
proof -
  from assms have "length s = 19" by (simp add: input_pattern_def)
  then obtain c0 c1 c2 c3 c4 c5 c6 c7 c8 c9 c10 c11 c12 c13 c14 c15 c16 c17 c18
    where s: "s = [c0, c1, c2, c3, c4, c5, c6, c7, c8, c9, c10, c11, c12, c13, c14, c15, c16, c17, c18]"
    using list19 [of s] by (elim meta_impE exE) auto
  from assms have shape:
    "digit_char c0" "digit_char c1" "digit_char c2" "digit_char c3" "c4 = CHR ''-''"
    "digit_char c5" "digit_char c6" "c7 = CHR ''-''" "digit_char c8" "digit_char c9"
    "c10 = CHR ''T''" "digit_char c11" "digit_char c12" "c13 = CHR '':''"
    "digit_char c14" "digit_char c15" "c16 = CHR '':''" "digit_char c17" "digit_char c18"
    by (simp_all add: s input_pattern_def timestamp_shape_def digits_def Let_def)
  from assms have range:
    "1 \<le> digit_val c5 * 10 + digit_val c6" "digit_val c5 * 10 + digit_val c6 \<le> 12"
    "1 \<le> digit_val c8 * 10 + digit_val c9"
    "digit_val c8 * 10 + digit_val c9 \<le>
       daysIn (digit_val c5 * 10 + digit_val c6)
         (((digit_val c0 * 10 + digit_val c1) * 10 + digit_val c2) * 10 + digit_val c3)"
    "digit_val c11 * 10 + digit_val c12 < 24" "digit_val c14 * 10 + digit_val c15 < 60"
    "digit_val c17 * 10 + digit_val c18 < 60"
    by (simp_all add: s input_pattern_def timestamp_shape_def digits_def number_of_def Let_def)
  have parse: "Parse_inputLayout s =
      Inr (Date (((digit_val c0 * 10 + digit_val c1) * 10 + digit_val c2) * 10 + digit_val c3)
             (digit_val c5 * 10 + digit_val c6) (digit_val c8 * 10 + digit_val c9)
             (digit_val c11 * 10 + digit_val c12) (digit_val c14 * 10 + digit_val c15)
             (digit_val c17 * 10 + digit_val c18) 0)"
    using range
    by (simp add: s shape Parse_inputLayout_def chunk_def stdLongYear_digits stdZeroMonth_def
        stdZeroDay_def stdHour_def stdZeroMinute_def stdZeroSecond_def getnum_True_digits
        fractionalSecond_Nil) arith
  show ?thesis
    unfolding NormalizeToESDate_def parse
    by (simp add: UTC_def Date_def Format_outputLayout_def
        appendInt_4_norm appendInt_2 appendNano_000_zero shape s)
qed

lemma andThen_Inr_iff: "andThen m f = Inr y \<longleftrightarrow> (\<exists>x. m = Inr x \<and> f x = Inr y)"
  by (cases m) simp_all

lemma chunk_Nil: "chunk [] std v = std v"
  by (simp add: chunk_def)

lemma chunk_one_Inr: "chunk [c] std v = Inr r \<longleftrightarrow> (\<exists>v'. v = c # v' \<and> std v' = Inr r)"
  by (cases v) (auto simp add: chunk_def)

lemma getnum_False_one:
  "digit_char a \<Longrightarrow> \<not> isDigit r 0 \<Longrightarrow> getnum (a # r) False = Some (digit_val a, r)"
  by (cases r) (simp_all add: getnum_def isDigit_simps)

lemma stdZeroMonth_Inr:
  "stdZeroMonth v = Inr (mo, r) \<longleftrightarrow>
     (\<exists>a b. v = a # b # r \<and> digit_char a \<and> digit_char b \<and> mo = digit_val a * 10 + digit_val b \<and>
        1 \<le> mo \<and> mo \<le> 12)"
  by (cases "getnum v True") (auto simp add: stdZeroMonth_def getnum_True_Some getnum_True_digits split: if_splits)

lemma stdZeroDay_Inr:
  "stdZeroDay v = Inr (d, r) \<longleftrightarrow>
     (\<exists>a b. v = a # b # r \<and> digit_char a \<and> digit_char b \<and> d = digit_val a * 10 + digit_val b)"
  by (cases "getnum v True") (auto simp add: stdZeroDay_def getnum_True_Some getnum_True_digits split: if_splits)

lemma stdHour_Inr:
  "stdHour v = Inr (h, r) \<longleftrightarrow>
     ((\<exists>a b. v = a # b # r \<and> digit_char a \<and> digit_char b \<and> h = digit_val a * 10 + digit_val b) \<or>
      (\<exists>a. v = a # r \<and> digit_char a \<and> \<not> isDigit r 0 \<and> h = digit_val a)) \<and> h < 24"
  by (cases "getnum v False") (auto simp add: stdHour_def getnum_False_Some getnum_True_digits getnum_False_one split: if_splits)

lemma stdZeroMinute_Inr:
  "stdZeroMinute v = Inr (mi, r) \<longleftrightarrow>
     (\<exists>a b. v = a # b # r \<and> digit_char a \<and> digit_char b \<and> mi = digit_val a * 10 + digit_val b \<and>
        mi < 60)"
  by (cases "getnum v True") (auto simp add: stdZeroMinute_def getnum_True_Some getnum_True_digits split: if_splits)

lemma stdZeroSecond_Inr:
  "stdZeroSecond v = Inr (se, r) \<longleftrightarrow>
     (\<exists>a b. v = a # b # r \<and> digit_char a \<and> digit_char b \<and> se = digit_val a * 10 + digit_val b \<and>
        se < 60)"
  by (cases "getnum v True") (auto simp add: stdZeroSecond_def getnum_True_Some getnum_True_digits split: if_splits)

lemma takeWhile_all_length:
  "length xs \<le> length (takeWhile P xs) \<Longrightarrow> list_all P xs"
proof -
  assume "length xs \<le> length (takeWhile P xs)"
  with length_takeWhile_le [of P xs] have "length (takeWhile P xs) = length xs" by simp
  then have "takeWhile P xs = xs"
    using takeWhile_eq_take [of P xs] by simp
  then show ?thesis
    by (simp add: takeWhile_eq_all_conv list_all_iff)
qed

lemma fractionalSecond_rest_Nil:
  assumes "fractionalSecond v = Inr (ns, [])"
  shows "fraction_suffix v"
proof (cases "length v \<ge> 2 \<and> commaOrPeriod (v ! 0) \<and> isDigit v 1")
  case False
  with assms show ?thesis by (auto simp add: fractionalSecond_def fraction_suffix_def split: if_splits)
next
  case True
  then obtain a b r where v: "v = a # b # r"
    by (cases v; cases "tl v") auto
  from True have ab: "commaOrPeriod a" "digit_char b" by (simp_all add: v isDigit_simps)
  from assms True have "length r \<le> length (takeWhile digit_char r)"
    by (simp add: fractionalSecond_def v Let_def split: option.splits)
  then have "list_all digit_char r" by (rule takeWhile_all_length)
  with ab show ?thesis by (simp add: fraction_suffix_def v)
qed

lemma Parse_Inr_lenient:
  assumes "Parse_inputLayout s = Inr t"
  shows "lenient_input_pattern s"
proof -
  from assms obtain y v1 mo v2 d v3 h v4 mi v5 se v6 ns where steps:
    "stdLongYear s = Inr (y, v1)" "chunk ''-'' stdZeroMonth v1 = Inr (mo, v2)"
    "chunk ''-'' stdZeroDay v2 = Inr (d, v3)" "chunk ''T'' stdHour v3 = Inr (h, v4)"
    "chunk '':'' stdZeroMinute v4 = Inr (mi, v5)" "chunk '':'' stdZeroSecond v5 = Inr (se, v6)"
    "fractionalSecond v6 = Inr (ns, [])" "1 \<le> d" "d \<le> daysIn mo y"
    by (auto simp add: Parse_inputLayout_def andThen_Inr_iff chunk_Nil split: if_splits)
  from steps(1) obtain y1 y2 y3 y4 where y:
    "s = y1 # y2 # y3 # y4 # v1" "digit_char y1" "digit_char y2" "digit_char y3" "digit_char y4"
    "y = ((digit_val y1 * 10 + digit_val y2) * 10 + digit_val y3) * 10 + digit_val y4"
    by (auto simp add: stdLongYear_Inr)
  from steps(2) obtain m1 m2 where m:
    "v1 = CHR ''-'' # m1 # m2 # v2" "digit_char m1" "digit_char m2"
    "mo = digit_val m1 * 10 + digit_val m2" "1 \<le> mo" "mo \<le> 12"
    by (auto simp add: chunk_one_Inr stdZeroMonth_Inr)
  from steps(3) obtain d1 d2 where d:
    "v2 = CHR ''-'' # d1 # d2 # v3" "digit_char d1" "digit_char d2"
    "d = digit_val d1 * 10 + digit_val d2"
    by (auto simp add: chunk_one_Inr stdZeroDay_Inr)
  from steps(5) obtain n1 n2 where n:
    "v4 = CHR '':'' # n1 # n2 # v5" "digit_char n1" "digit_char n2"
    "mi = digit_val n1 * 10 + digit_val n2" "mi < 60"
    by (auto simp add: chunk_one_Inr stdZeroMinute_Inr)
  from steps(6) obtain s1 s2 where se:
    "v5 = CHR '':'' # s1 # s2 # v6" "digit_char s1" "digit_char s2"
    "se = digit_val s1 * 10 + digit_val s2" "se < 60"
    by (auto simp add: chunk_one_Inr stdZeroSecond_Inr)
  have frac: "fraction_suffix v6" using steps(7) by (rule fractionalSecond_rest_Nil)
  from steps(4) have h24: "h < 24" by (auto simp add: chunk_one_Inr stdHour_Inr)
  from steps(4) consider
      (two) h1 h2 where "v3 = CHR ''T'' # h1 # h2 # v4" "digit_char h1" "digit_char h2"
        "h = digit_val h1 * 10 + digit_val h2"
    | (one) h1 where "v3 = CHR ''T'' # h1 # v4" "digit_char h1" "h = digit_val h1"
    by (auto simp add: chunk_one_Inr stdHour_Inr)
  then show ?thesis
  proof cases
    case two
    have "timestamp_shape 2 s \<and> fraction_suffix (drop 19 s)"
      using y m d n se two h24 frac steps(8,9)
      by (simp add: timestamp_shape_def digits_def number_of_def Let_def)
    then show ?thesis by (simp add: lenient_input_pattern_def)
  next
    case one
    have "timestamp_shape 1 s \<and> fraction_suffix (drop 18 s)"
      using y m d n se one h24 frac steps(8,9)
      by (simp add: timestamp_shape_def digits_def number_of_def Let_def)
    then show ?thesis by (simp add: lenient_input_pattern_def)
  qed
qed

lemma NormalizeToESDate_not_lenient:
  assumes "\<not> lenient_input_pattern s"
  shows "\<exists>err. NormalizeToESDate s = ('''', Some err)"
proof (cases "Parse_inputLayout s")
  case (Inl err)
  then show ?thesis by (simp add: NormalizeToESDate_def)
next
  case (Inr t)
  then have "lenient_input_pattern s" by (rule Parse_Inr_lenient)
  with assms show ?thesis by simp
qed

text \<open>The facts that evaluate the normaliser and the patterns on a literal input.\<close>

lemmas normalizer_eval =
  NormalizeToESDate_def Parse_inputLayout_def andThen_def chunk_def stdLongYear_def
  stdZeroMonth_def stdZeroDay_def stdHour_def stdZeroMinute_def stdZeroSecond_def
  fractionalSecond_def getnum_def isDigit_def digit_char_def digit_val_def atoi_def
  leadingInt_def parseNanoseconds_def commaOrPeriod_def daysIn_def isLeap_def Date_def UTC_def
  Format_outputLayout_def appendInt_def appendNano_000_def decimal.simps char_of_digit_simps
  Let_def replicate_numeral_unfold

lemmas pattern_eval =
  input_pattern_def lenient_input_pattern_def timestamp_shape_def digits_def number_of_def
  fraction_suffix_def digit_char_def digit_val_def commaOrPeriod_def daysIn_def isLeap_def Let_def

lemma sample_date_pattern: "input_pattern ''2024-01-15T10:30:00''"
  by (simp add: pattern_eval)

lemma sample_date_normalizes:
  "NormalizeToESDate ''2024-01-15T10:30:00'' = (''2024-01-15T10:30:00.000Z'', None)"
  using NormalizeToESDate_input_pattern [OF sample_date_pattern] by simp

lemma not_a_date_fails: "NormalizeToESDate ''not-a-date'' = ('''', Some Mismatch)"
  by (simp add: normalizer_eval)

section \<open>Properties of the bulk ingestion pipeline\<close>

lemma chunks_Nil [simp]: "chunks B [] = []"
  by (simp add: chunks.simps)

lemma chunks_short: "0 < B \<Longrightarrow> xs \<noteq> [] \<Longrightarrow> length xs \<le> B \<Longrightarrow> chunks B xs = [xs]"
  by (subst chunks.simps) simp

lemma chunks_append_full: "0 < B \<Longrightarrow> length p = B \<Longrightarrow> chunks B (p @ xs) = p # chunks B xs"
  by (subst chunks.simps) auto

lemma whole_batches_short: "length xs < B \<Longrightarrow> whole_batches B xs = []"
  by (simp add: whole_batches_def)

lemma remainder_short: "length xs < B \<Longrightarrow> remainder B xs = xs"
  by (simp add: remainder_def)

lemma div_add_batch: "0 < B \<Longrightarrow> (B + n) div B = Suc (n div B)"
  using div_add_self1 [of B n] by simp

lemma whole_batches_append_full:
  "0 < B \<Longrightarrow> length p = B \<Longrightarrow> whole_batches B (p @ xs) = p # whole_batches B xs"
  by (simp add: whole_batches_def chunks_append_full div_add_batch)

lemma remainder_append_full:
  "0 < B \<Longrightarrow> length p = B \<Longrightarrow> remainder B (p @ xs) = remainder B xs"
  by (simp add: remainder_def div_add_batch)

lemma length_remainder: "0 < B \<Longrightarrow> length (remainder B xs) = length xs mod B"
  by (simp add: remainder_def minus_mult_div_eq_mod)

lemma payload_of_Nil [simp]: "payload_of Marshal [] = []"
  by (simp add: payload_of_def)

lemma payload_of_append: "payload_of Marshal (xs @ ys) = payload_of Marshal xs @ payload_of Marshal ys"
  by (simp add: payload_of_def)

lemma meta_line_not_Nil: "meta_line ident \<noteq> []"
  by (simp add: meta_line_def)

lemma payload_of_eq_Nil [simp]: "payload_of Marshal xs = [] \<longleftrightarrow> xs = []"
  by (cases xs) (simp_all add: payload_of_def record_lines_def meta_line_not_Nil)

lemma flushBulk_empty: "buf st = [] \<Longrightarrow> flushBulk es st = (None, st)"
  by (simp add: flushBulk_def)

lemma flushBulk_accepted:
  "buf st \<noteq> [] \<Longrightarrow> accepted (es (bulk_calls st) (buf st)) \<Longrightarrow>
   flushBulk es st = (None, st\<lparr>bulk_calls := bulk_calls st @ [buf st], buf := []\<rparr>)"
  by (auto simp add: flushBulk_def accepted_def Let_def split: bulk_result.splits option.splits)

lemma range_articles_step:
  assumes "normalizes a" "serialises Marshal a"
  shows "range_articles B Marshal es i (a # rest) \<lparr>buf = payload_of Marshal pend, bulk_calls = cs\<rparr> =
     (if (i + 1) mod B = 0 then
        (case flushBulk es \<lparr>buf = payload_of Marshal (pend @ [a]), bulk_calls = cs\<rparr> of
           (Some err, st3) \<Rightarrow> (Some err, st3)
         | (None, st3) \<Rightarrow> range_articles B Marshal es ((i + 1)) rest st3)
      else range_articles B Marshal es ((i + 1)) rest
             \<lparr>buf = payload_of Marshal (pend @ [a]), bulk_calls = cs\<rparr>)"
proof -
  obtain fd where fd: "NormalizeToESDate (PublicationDate a) = (fd, None)"
    using assms(1) by (cases "NormalizeToESDate (PublicationDate a)") (simp add: normalizes_def)
  obtain body where body: "Marshal (make_doc a fd) = Inr body"
    using assms(2) fd by (cases "Marshal (make_doc a fd)") (simp_all add: serialises_def)
  have "payload_of Marshal (pend @ [a]) = payload_of Marshal pend @ meta_line (ID a) @ body @ [CHR 0x0A]"
    by (simp add: payload_of_def record_lines_def fd body)
  then show ?thesis
    by (simp add: fd body Let_def)
qed

lemma range_articles_batches:
  assumes B: "0 < B"
  shows "length pend < B \<Longrightarrow> i mod B = length pend \<Longrightarrow>
    \<forall>a\<in>set as. normalizes a \<and> serialises Marshal a \<Longrightarrow>
    accepts_all es cs (map (payload_of Marshal) (whole_batches B (pend @ as))) \<Longrightarrow>
    range_articles B Marshal es i as \<lparr>buf = payload_of Marshal pend, bulk_calls = cs\<rparr> =
      (None, \<lparr>buf = payload_of Marshal (remainder B (pend @ as)),
              bulk_calls = cs @ map (payload_of Marshal) (whole_batches B (pend @ as))\<rparr>)"
proof (induction as arbitrary: pend i cs)
  case Nil
  then show ?case by (simp add: whole_batches_short remainder_short)
next
  case (Cons a as)
  have a: "normalizes a" "serialises Marshal a" using Cons.prems(3) by simp_all
  have rest: "\<forall>a\<in>set as. normalizes a \<and> serialises Marshal a" using Cons.prems(3) by simp
  show ?case
  proof (cases "(i + 1) mod B = 0")
    case True
    have len: "length (pend @ [a]) = B"
      using True Cons.prems(1,2) B by (simp add: mod_Suc Suc_eq_plus1 [symmetric] split: if_splits)
    have wb: "whole_batches B (pend @ a # as) = (pend @ [a]) # whole_batches B as"
      using whole_batches_append_full [OF B len, of as] by simp
    have rm: "remainder B (pend @ a # as) = remainder B as"
      using remainder_append_full [OF B len, of as] by simp
    from Cons.prems(4) have acc: "accepted (es cs (payload_of Marshal (pend @ [a])))"
      and acc_rest: "accepts_all es (cs @ [payload_of Marshal (pend @ [a])])
                       (map (payload_of Marshal) (whole_batches B ([] @ as)))"
      by (simp_all add: wb)
    have flush: "flushBulk es \<lparr>buf = payload_of Marshal (pend @ [a]), bulk_calls = cs\<rparr> =
        (None, \<lparr>buf = payload_of Marshal [], bulk_calls = cs @ [payload_of Marshal (pend @ [a])]\<rparr>)"
      using acc by (subst flushBulk_accepted) simp_all
    have "range_articles B Marshal es ((i + 1)) as
            \<lparr>buf = payload_of Marshal [], bulk_calls = cs @ [payload_of Marshal (pend @ [a])]\<rparr> =
          (None, \<lparr>buf = payload_of Marshal (remainder B ([] @ as)),
                  bulk_calls = (cs @ [payload_of Marshal (pend @ [a])]) @
                    map (payload_of Marshal) (whole_batches B ([] @ as))\<rparr>)"
      using B True rest acc_rest by (intro Cons.IH) simp_all
    with True show ?thesis
      by (subst range_articles_step [OF a]) (simp add: flush wb rm)
  next
    case False
    have len: "length (pend @ [a]) < B" "(i + 1) mod B = length (pend @ [a])"
      using False Cons.prems(1,2) B by (simp_all add: mod_Suc Suc_eq_plus1 [symmetric] split: if_splits)
    have "range_articles B Marshal es ((i + 1)) as \<lparr>buf = payload_of Marshal (pend @ [a]), bulk_calls = cs\<rparr> =
          (None, \<lparr>buf = payload_of Marshal (remainder B ((pend @ [a]) @ as)),
                  bulk_calls = cs @ map (payload_of Marshal) (whole_batches B ((pend @ [a]) @ as))\<rparr>)"
      using len rest Cons.prems(4) by (intro Cons.IH) simp_all
    with False show ?thesis
      by (subst range_articles_step [OF a]) simp
  qed
qed

lemma range_articles_append:
  "range_articles B Marshal es i (xs @ ys) st =
     (case range_articles B Marshal es i xs st of
        (Some err, st1) \<Rightarrow> (Some err, st1)
      | (None, st1) \<Rightarrow> range_articles B Marshal es (i + length xs) ys st1)"
  by (induction xs arbitrary: i st)
     (auto simp add: Let_def split: prod.splits option.splits sum.splits)

lemma accepts_all_append:
  "accepts_all es cs (ps @ qs) = (accepts_all es cs ps \<and> accepts_all es (cs @ ps) qs)"
  by (induction ps arbitrary: cs) auto

lemma chunks_decompose:
  "0 < B \<Longrightarrow> chunks B xs = whole_batches B xs @ (if remainder B xs = [] then [] else [remainder B xs])"
proof (induction B xs rule: chunks.induct)
  case (1 B xs)
  show ?case
  proof (cases "length xs < B")
    case True
    with 1(2) show ?thesis
      by (cases "xs = []") (simp_all add: whole_batches_short remainder_short chunks_short)
  next
    case False
    with 1(2) have nonempty: "xs \<noteq> []" by auto
    have len: "length (take B xs) = B" using False by simp
    have split: "xs = take B xs @ drop B xs" by simp
    have wb: "whole_batches B xs = take B xs # whole_batches B (drop B xs)"
      using whole_batches_append_full [OF 1(2) len, of "drop B xs"] by simp
    have rm: "remainder B xs = remainder B (drop B xs)"
      using remainder_append_full [OF 1(2) len, of "drop B xs"] by simp
    have "chunks B xs = take B xs # chunks B (drop B xs)"
      using nonempty 1(2) by (subst chunks.simps) simp
    also have "chunks B (drop B xs) = whole_batches B (drop B xs) @
        (if remainder B (drop B xs) = [] then [] else [remainder B (drop B xs)])"
      using 1(1) nonempty 1(2) by simp
    finally show ?thesis by (simp add: wb rm)
  qed
qed

lemma length_chunks: "0 < B \<Longrightarrow> length (chunks B xs) = (length xs + B - 1) div B"
proof (induction B xs rule: chunks.induct)
  case (1 B xs)
  show ?case
  proof (cases "xs = []")
    case True
    with 1(2) show ?thesis by simp
  next
    case False
    have step: "length (chunks B xs) = Suc (length (chunks B (drop B xs)))"
      using False 1(2) by (subst chunks.simps) simp
    have ih: "length (chunks B (drop B xs)) = (length xs - B + B - 1) div B"
      using 1(1) False 1(2) by simp
    show ?thesis
    proof (cases "B \<le> length xs")
      case True
      then have "length xs + B - 1 = B + (length xs - 1)" using 1(2) by simp
      then have "(length xs + B - 1) div B = Suc ((length xs - 1) div B)"
        using div_add_batch [OF 1(2), of "length xs - 1"] by simp
      with step ih True show ?thesis by simp
    next
      case False
      have "length xs + B - 1 = B + (length xs - 1)"
        using \<open>xs \<noteq> []\<close> by (cases xs) simp_all
      moreover have "(length xs - 1) div B = 0" using False by simp
      ultimately have "(length xs + B - 1) div B = 1"
        using div_add_batch [OF 1(2), of "length xs - 1"] by simp
      with step False show ?thesis by (simp add: chunks.simps [of B "[]"])
    qed
  qed
qed

lemma last_chunks:
  "0 < B \<Longrightarrow> xs \<noteq> [] \<Longrightarrow>
   last (chunks B xs) =
     drop (length xs - (if length xs mod B = 0 then B else length xs mod B)) xs"
proof (induction B xs rule: chunks.induct)
  case (1 B xs)
  have step: "chunks B xs = take B xs # chunks B (drop B xs)"
    using 1(2,3) by (subst chunks.simps) simp
  show ?case
  proof (cases "drop B xs = []")
    case True
    then have le: "length xs \<le> B" by simp
    then have "length xs - (if length xs mod B = 0 then B else length xs mod B) = 0"
      by (cases "length xs = B") simp_all
    with True le show ?thesis by (simp add: step)
  next
    case False
    then have lt: "B < length xs" by simp
    have ih: "last (chunks B (drop B xs)) =
        drop (length (drop B xs) - (if length (drop B xs) mod B = 0 then B else length (drop B xs) mod B))
          (drop B xs)"
      using 1(1) 1(2,3) False by simp
    have md: "length (drop B xs) mod B = length xs mod B"
      using lt by (simp add: le_mod_geq)
    define k where "k = (if length xs mod B = 0 then B else length xs mod B)"
    have k: "k \<le> length xs - B"
    proof (cases "length xs mod B = 0")
      case True
      then have "(length xs - B) mod B = 0" using md by simp
      moreover have "0 < length xs - B" using lt by simp
      ultimately have "B \<le> length xs - B" using 1(2)
        by (metis mod_less neq0_conv not_le)
      with True show ?thesis by (simp add: k_def)
    next
      case False
      then have "k = (length xs - B) mod B" using md by (simp add: k_def)
      then show ?thesis by (simp add: mod_le_divisor 1(2))
    qed
    have chunks_ne: "chunks B (drop B xs) \<noteq> []"
      using False 1(2) by (subst chunks.simps) simp
    have "last (chunks B xs) = last (chunks B (drop B xs))"
      using chunks_ne by (simp add: step)
    also have "\<dots> = drop (length xs - B - k) (drop B xs)"
      using ih md by (simp add: k_def)
    also have "\<dots> = drop (length xs - k) xs"
      using k lt by simp
    finally show ?thesis by (simp add: k_def)
  qed
qed

lemma chunks_nonempty: "c \<in> set (chunks B xs) \<Longrightarrow> c \<noteq> []"
proof (induction B xs rule: chunks.induct)
  case (1 B xs)
  show ?case
  proof (cases "B = 0 \<or> xs = []")
    case True
    with 1(2) show ?thesis by (simp add: chunks.simps [of B xs])
  next
    case False
    with 1 show ?thesis
      by (subst (asm) (2) chunks.simps) auto
  qed
qed

lemma bulkIndex_all_accepted:
  assumes "0 < B" "\<forall>a\<in>set articles. normalizes a \<and> serialises Marshal a"
    and "accepts_all es [] (map (payload_of Marshal) (chunks B articles))"
  shows "bulkIndex_sized B Marshal es articles =
           (None, \<lparr>buf = [], bulk_calls = map (payload_of Marshal) (chunks B articles)\<rparr>)"
proof -
  have dec: "chunks B articles = whole_batches B articles @
      (if remainder B articles = [] then [] else [remainder B articles])"
    using assms(1) by (rule chunks_decompose)
  have acc_whole: "accepts_all es [] (map (payload_of Marshal) (whole_batches B ([] @ articles)))"
    using assms(3) by (subst (asm) dec) (simp add: accepts_all_append)
  have loop: "range_articles B Marshal es 0 articles \<lparr>buf = payload_of Marshal [], bulk_calls = []\<rparr> =
      (None, \<lparr>buf = payload_of Marshal (remainder B ([] @ articles)),
              bulk_calls = [] @ map (payload_of Marshal) (whole_batches B ([] @ articles))\<rparr>)"
    using assms(1,2) acc_whole by (intro range_articles_batches) simp_all
  show ?thesis
  proof (cases "remainder B articles = []")
    case True
    with loop dec show ?thesis
      by (simp add: bulkIndex_sized_def flushBulk_empty)
  next
    case False
    have "accepted (es (map (payload_of Marshal) (whole_batches B articles))
                     (payload_of Marshal (remainder B articles)))"
      using assms(3) False by (subst (asm) dec) (simp add: accepts_all_append)
    with loop dec False show ?thesis
      by (simp add: bulkIndex_sized_def flushBulk_accepted)
  qed
qed

lemma whole_batches_props:
  "0 < B \<Longrightarrow>
     (\<forall>b\<in>set (whole_batches B xs). length b = B) \<and>
     concat (whole_batches B xs) @ remainder B xs = xs \<and>
     length (whole_batches B xs) = length xs div B"
proof (induction B xs rule: chunks.induct)
  case (1 B xs)
  show ?case
  proof (cases "length xs < B")
    case True
    then show ?thesis by (simp add: whole_batches_short remainder_short)
  next
    case False
    with 1(2) have nonempty: "\<not> (B = 0 \<or> xs = [])" by auto
    have len: "length (take B xs) = B" using False by simp
    have wb: "whole_batches B xs = take B xs # whole_batches B (drop B xs)"
      using whole_batches_append_full [OF 1(2) len, of "drop B xs"] by simp
    have rm: "remainder B xs = remainder B (drop B xs)"
      using remainder_append_full [OF 1(2) len, of "drop B xs"] by simp
    have dv: "length xs div B = Suc ((length xs - B) div B)"
      by (rule le_div_geq) (use False 1(2) in simp_all)
    note ih = 1(1) [OF nonempty 1(2)]
    have c1: "\<forall>b\<in>set (whole_batches B xs). length b = B"
      using ih len by (simp only: wb set_simps ball_simps) simp
    have "concat (whole_batches B xs) @ remainder B xs =
          take B xs @ (concat (whole_batches B (drop B xs)) @ remainder B (drop B xs))"
      by (simp only: wb rm concat.simps append_assoc)
    also have "\<dots> = take B xs @ drop B xs" using ih by simp
    finally have c2: "concat (whole_batches B xs) @ remainder B xs = xs" by simp
    have "length (whole_batches B xs) = Suc (length (whole_batches B (drop B xs)))"
      by (simp only: wb list.size)
    also have "\<dots> = Suc ((length xs - B) div B)" using ih by simp
    finally have c3: "length (whole_batches B xs) = length xs div B" by (simp only: dv)
    from c1 c2 c3 show ?thesis by blast
  qed
qed

lemma bulkIndex_date_failure:
  assumes "0 < B" "\<forall>a\<in>set pre. normalizes a \<and> serialises Marshal a"
    and "NormalizeToESDate (PublicationDate bad) = (out, Some err)"
    and "accepts_all es [] (map (payload_of Marshal) (whole_batches B pre))"
  shows "bulkIndex_sized B Marshal es (pre @ bad # post) =
           (Some (DateParseError err),
            \<lparr>buf = payload_of Marshal (remainder B pre),
             bulk_calls = map (payload_of Marshal) (whole_batches B pre)\<rparr>)"
proof -
  have loop: "range_articles B Marshal es 0 pre \<lparr>buf = payload_of Marshal [], bulk_calls = []\<rparr> =
      (None, \<lparr>buf = payload_of Marshal (remainder B ([] @ pre)),
              bulk_calls = [] @ map (payload_of Marshal) (whole_batches B ([] @ pre))\<rparr>)"
    using assms(1,2,4) by (intro range_articles_batches) simp_all
  show ?thesis
    using loop by (simp add: bulkIndex_sized_def range_articles_append assms(3))
qed

lemma action_error_None_iff:
  "action_error item = None \<longleftrightarrow> (\<forall>(name, action)\<in>set item. Error action = None)"
  by (induction item rule: action_error.induct) (auto split: option.splits)

lemma item_error_None_iff:
  "item_error items = None \<longleftrightarrow>
     (\<forall>item\<in>set items. \<forall>(name, action)\<in>set item. Error action = None)"
proof (induction items)
  case Nil
  show ?case by simp
next
  case (Cons item items)
  have "item_error (item # items) = None \<longleftrightarrow> action_error item = None \<and> item_error items = None"
    by (cases "action_error item") simp_all
  then show ?case
    using Cons.IH by (simp add: action_error_None_iff)
qed

lemma item_error_first:
  "item_error before = None \<Longrightarrow> action_error item = Some detail \<Longrightarrow>
   item_error (before @ item # rest) = Some detail \<and>
   items_visited (before @ item # rest) = length before + 1"
  by (induction before) (auto split: option.splits)

lemma sample_normalizes: "normalizes (article ident ''2024-01-15T10:30:00'')"
  by (simp add: normalizes_def article_def sample_date_normalizes)

lemma sample_serialises: "serialises marshal_id a"
  by (simp add: serialises_def marshal_id_def)

lemma accepting_store_accepts: "accepts_all accepting_store earlier payloads"
  by (induction payloads arbitrary: earlier) (simp_all add: accepted_def accepting_store_def)

section \<open>Properties of the payload as JSON\<close>

lemmas scan_eval = valid_def json_object_def isSpace_def isDigit19_def isDigit09_def isHex_def
  popParseState_def endValue_def beginValue_def beginString_def afterInt_def afterSign_def

lemma scan_append:
  "scan s (xs @ ys) = (case scan s xs of None \<Rightarrow> None | Some s' \<Rightarrow> scan s' ys)"
  by (induction xs arbitrary: s) (simp_all split: option.splits)

text \<open>Inside a string the scanner stays inside it over bytes that need no escape.\<close>

lemma scan_plain_string:
  "plain_string_content ident \<Longrightarrow> scan (stateInString, stack) ident = Some (stateInString, stack)"
  by (induction ident) (simp_all add: plain_string_content_def not_less [symmetric])

lemma plain_string_no_newline:
  "plain_string_content ident \<Longrightarrow> CHR 0x0A \<notin> set ident"
  by (induction ident) (auto simp add: plain_string_content_def)

lemma splitAfter_line:
  "CHR 0x0A \<notin> set l \<Longrightarrow> splitAfter acc (l @ CHR 0x0A # r) = (acc @ l @ [CHR 0x0A]) # splitAfter [] r"
  by (induction l arbitrary: acc) auto

lemma meta_line_json_object:
  assumes "plain_string_content ident"
  shows "json_object (butlast (meta_line ident))"
  using assms
  by (simp add: scan_eval scan_append scan_plain_string meta_line_def indexName_def butlast_append)

lemma meta_line_snoc: "meta_line ident = butlast (meta_line ident) @ [CHR 0x0A]"
  by (simp add: meta_line_def butlast_append)

lemma meta_line_one_line:
  "plain_string_content ident \<Longrightarrow> CHR 0x0A \<notin> set (butlast (meta_line ident))"
  by (simp add: meta_line_def indexName_def butlast_append plain_string_no_newline)

lemma object_per_line_line:
  "CHR 0x0A \<notin> set l \<Longrightarrow>
   object_per_line (l @ CHR 0x0A # r) = (json_object l \<and> object_per_line r)"
  by (simp add: object_per_line_def splitAfter_line json_object_line_def)

lemma object_per_line_Nil: "object_per_line []"
  by (simp add: object_per_line_def)

lemma object_per_line_meta_line:
  assumes "plain_string_content ident"
  shows "object_per_line (meta_line ident @ r) = object_per_line r"
proof -
  define m where "m = butlast (meta_line ident)"
  have eq: "meta_line ident = m @ [CHR 0x0A]"
    unfolding m_def by (rule meta_line_snoc)
  have "CHR 0x0A \<notin> set m" and "json_object m"
    unfolding m_def using assms by (simp_all add: meta_line_one_line meta_line_json_object)
  then show ?thesis
    unfolding eq by (simp add: object_per_line_line)
qed

lemma object_per_line_record_lines:
  assumes "plain_string_content (ID a)" and "marshals_object_line Marshal a"
  shows "object_per_line (record_lines Marshal a @ r) = object_per_line r"
proof -
  obtain body where body: "Marshal (make_doc a (fst (NormalizeToESDate (PublicationDate a)))) = Inr body"
    and obj: "json_object body" and line: "CHR 0x0A \<notin> set body"
    using assms(2) by (auto simp add: marshals_object_line_def split: sum.splits)
  have "record_lines Marshal a @ r = meta_line (ID a) @ (body @ CHR 0x0A # r)"
    by (simp add: record_lines_def body)
  then show ?thesis
    using assms(1) obj line by (simp add: object_per_line_meta_line object_per_line_line)
qed

lemma object_per_line_payload_of:
  assumes "list_all (\<lambda>a. plain_string_content (ID a)) articles"
      and "list_all (marshals_object_line Marshal) articles"
  shows "object_per_line (payload_of Marshal articles)"
  using assms
proof (induction articles)
  case Nil
  show ?case by (simp add: payload_of_def object_per_line_Nil)
next
  case (Cons a articles)
  have "payload_of Marshal (a # articles) = record_lines Marshal a @ payload_of Marshal articles"
    by (simp add: payload_of_def)
  then show ?case
    using Cons by (simp add: object_per_line_record_lines)
qed

lemmas payload_eval = payload_of_def record_lines_def meta_line_def indexName_def
  object_per_line_def json_object_line_def marshals_object_line_def marshal_empty_object_def
  article_def no_quote_backslash_newline_def plain_string_content_def

section \<open>The claims\<close>

text \<open>
  C4. For every input string that matches the pattern \<^verbatim>\<open>yyyy-MM-dd'T'HH:mm:ss\<close> (a calendar
  date and a time of day, second precision, no zone), the date normaliser succeeds and
  returns the same instant in the pattern \<^verbatim>\<open>yyyy-MM-dd'T'HH:mm:ss.SSS'Z'\<close>: the input followed
  by \<^verbatim>\<open>.000Z\<close>. In particular \<^verbatim>\<open>2024-01-15T10:30:00\<close> gives \<^verbatim>\<open>2024-01-15T10:30:00.000Z\<close>.
\<close>

theorem normalize_input_pattern:
  "input_pattern s \<Longrightarrow> NormalizeToESDate s = (s @ ''.000Z'', None)"
  by (rule NormalizeToESDate_input_pattern)

theorem normalize_input_pattern_witness:
  "input_pattern ''2024-01-15T10:30:00'' \<and>
   NormalizeToESDate ''2024-01-15T10:30:00'' = (''2024-01-15T10:30:00.000Z'', None)"
proof -
  have h: "input_pattern ''2024-01-15T10:30:00''" by (simp add: pattern_eval)
  show ?thesis using h normalize_input_pattern [OF h] by simp
qed

text \<open>
  C5, as stated: every input string that does not match the input pattern makes the
  normaliser fail with a parse error. It is false at \<^verbatim>\<open>2024-01-15T10:30:00.123\<close>, which does
  not match the pattern and is normalised to \<^verbatim>\<open>2024-01-15T10:30:00.123Z\<close>: the parser reads a
  fractional second that the layout does not mention.
\<close>

theorem normalize_rejects_non_pattern_counterexample:
  "\<not> input_pattern ''2024-01-15T10:30:00.123'' \<and>
   NormalizeToESDate ''2024-01-15T10:30:00.123'' = (''2024-01-15T10:30:00.123Z'', None)"
  by (simp add: input_pattern_def normalizer_eval)

text \<open>
  C5, amended: every input string that is not a date and time in the input pattern, where
  the hour may have one digit and the seconds may be followed by a comma or period and
  one or more digits, makes the normaliser fail: it returns the empty string and a parse
  error. In particular \<^verbatim>\<open>not-a-date\<close> fails.
\<close>

theorem normalize_rejects_non_lenient:
  "\<not> lenient_input_pattern s \<Longrightarrow> \<exists>err. NormalizeToESDate s = ('''', Some err)"
  by (rule NormalizeToESDate_not_lenient)

theorem normalize_rejects_non_lenient_witness:
  "\<not> lenient_input_pattern ''not-a-date'' \<and>
   (\<exists>err. NormalizeToESDate ''not-a-date'' = ('''', Some err))"
proof -
  have h: "\<not> lenient_input_pattern ''not-a-date''" by (simp add: pattern_eval)
  show ?thesis using h normalize_rejects_non_lenient [OF h] by simp
qed

text \<open>
  C10. For the empty article list the pipeline succeeds and submits no bulk request: the
  loop does nothing and the one flush at the end finds the buffer empty.
\<close>

theorem bulkIndex_empty:
  "bulkIndex Marshal es [] = (None, \<lparr>buf = [], bulk_calls = []\<rparr>)"
  by (simp add: bulkIndex_def bulkIndex_sized_def flushBulk_def)

theorem bulkIndex_empty_witness:
  "bulkIndex marshal_id rejecting_store [] = (None, \<lparr>buf = [], bulk_calls = []\<rparr>)"
  using bulkIndex_empty [of marshal_id rejecting_store] by simp

text \<open>
  C8. When a bulk response has its errors flag set and no item carries an error, the
  flush succeeds: it returns no error and clears the buffer, exactly as it does for the
  same response with the flag not set.
\<close>

theorem flushBulk_flag_without_item_error:
  assumes "buf st \<noteq> []" and "es (bulk_calls st) (buf st) = Response resp"
    and "Errors resp"
    and "\<forall>item\<in>set (Items resp). \<forall>(name, action)\<in>set item. Error action = None"
  shows "flushBulk es st = (None, st\<lparr>bulk_calls := bulk_calls st @ [buf st], buf := []\<rparr>) \<and>
         flushBulk es st = flushBulk (\<lambda>earlier payload. Response (resp\<lparr>Errors := False\<rparr>)) st"
proof -
  have "item_error (Items resp) = None"
    using assms(4) by (simp add: item_error_None_iff)
  with assms(1,2,3) show ?thesis
    by (simp add: flushBulk_def Let_def)
qed

theorem flushBulk_flag_without_item_error_witness:
  "flushBulk (\<lambda>earlier payload. Response \<lparr>Errors = True,
       Items = [[(''index'', \<lparr>Status = 201, Error = None :: string option\<rparr>)]]\<rparr>)
     \<lparr>buf = ''x'', bulk_calls = []\<rparr> = (None, \<lparr>buf = [], bulk_calls = [''x'']\<rparr>)"
  using flushBulk_flag_without_item_error
    [of "\<lparr>buf = ''x'', bulk_calls = []\<rparr>"
        "\<lambda>earlier payload. Response \<lparr>Errors = True,
           Items = [[(''index'', \<lparr>Status = 201, Error = None :: string option\<rparr>)]]\<rparr>"
        "\<lparr>Errors = True, Items = [[(''index'', \<lparr>Status = 201, Error = None :: string option\<rparr>)]]\<rparr>"]
  by simp

text \<open>
  C2. When a bulk response has its errors flag set and contains an item with an error,
  the flush fails with an error that wraps the error detail of the first such item, and
  the scan visits no item after it; the buffer is not cleared. When the flag is not set
  the flush does not fail, whatever the items carry.
\<close>

theorem flushBulk_first_item_error:
  assumes "buf st \<noteq> []" and "es (bulk_calls st) (buf st) = Response resp"
  shows "(Errors resp \<and> Items resp = before @ item # after \<and>
          (\<forall>it\<in>set before. \<forall>(name, action)\<in>set it. Error action = None) \<and>
          action_error item = Some detail \<longrightarrow>
            flushBulk es st =
              (Some (BulkItemError detail), st\<lparr>bulk_calls := bulk_calls st @ [buf st]\<rparr>) \<and>
            items_visited (Items resp) = length before + 1) \<and>
         (\<not> Errors resp \<longrightarrow>
            flushBulk es st = (None, st\<lparr>bulk_calls := bulk_calls st @ [buf st], buf := []\<rparr>))"
proof (intro conjI impI)
  assume h: "Errors resp \<and> Items resp = before @ item # after \<and>
          (\<forall>it\<in>set before. \<forall>(name, action)\<in>set it. Error action = None) \<and>
          action_error item = Some detail"
  then have "item_error before = None" by (simp add: item_error_None_iff)
  with h have first: "item_error (Items resp) = Some detail"
    "items_visited (Items resp) = length before + 1"
    using item_error_first [of before item detail after] by simp_all
  from first(1) h assms show "flushBulk es st =
      (Some (BulkItemError detail), st\<lparr>bulk_calls := bulk_calls st @ [buf st]\<rparr>)"
    by (simp add: flushBulk_def Let_def)
  from first(2) show "items_visited (Items resp) = length before + 1" .
next
  assume "\<not> Errors resp"
  with assms show "flushBulk es st = (None, st\<lparr>bulk_calls := bulk_calls st @ [buf st], buf := []\<rparr>)"
    by (simp add: flushBulk_def Let_def)
qed

theorem flushBulk_first_item_error_witness:
  "flushBulk
     (\<lambda>earlier payload. Response \<lparr>Errors = True,
        Items = [[(''index'', \<lparr>Status = 201, Error = None\<rparr>)],
                 [(''index'', \<lparr>Status = 400, Error = Some ''first''\<rparr>)],
                 [(''index'', \<lparr>Status = 400, Error = Some ''second''\<rparr>)]]\<rparr>)
     \<lparr>buf = ''x'', bulk_calls = []\<rparr> =
     (Some (BulkItemError ''first''), \<lparr>buf = ''x'', bulk_calls = [''x'']\<rparr>) \<and>
   items_visited
     [[(''index'', \<lparr>Status = 201, Error = None\<rparr>)],
      [(''index'', \<lparr>Status = 400, Error = Some ''first''\<rparr>)],
      [(''index'', \<lparr>Status = 400, Error = Some ''second''\<rparr>)]] = 2"
  using flushBulk_first_item_error
    [of "\<lparr>buf = ''x'', bulk_calls = []\<rparr>"
        "\<lambda>earlier payload. Response \<lparr>Errors = True,
           Items = [[(''index'', \<lparr>Status = 201, Error = None\<rparr>)],
                    [(''index'', \<lparr>Status = 400, Error = Some ''first''\<rparr>)],
                    [(''index'', \<lparr>Status = 400, Error = Some ''second''\<rparr>)]]\<rparr>"
        "\<lparr>Errors = True,
           Items = [[(''index'', \<lparr>Status = 201, Error = None\<rparr>)],
                    [(''index'', \<lparr>Status = 400, Error = Some ''first''\<rparr>)],
                    [(''index'', \<lparr>Status = 400, Error = Some ''second''\<rparr>)]]\<rparr>"
        "[[(''index'', \<lparr>Status = 201, Error = None\<rparr>)]]"
        "[(''index'', \<lparr>Status = 400, Error = Some ''first''\<rparr>)]"
        "[[(''index'', \<lparr>Status = 400, Error = Some ''second''\<rparr>)]]"
        "''first''"]
  by simp

text \<open>
  C1, as stated: for N articles whose dates all normalise and batch size B the pipeline
  issues exactly ceil(N/B) submissions. It is false when the store rejects a batch that is
  not the last one: with two articles, batch size 1 and a store that answers every
  submission with an item error, the pipeline stops after one submission, not two.
\<close>

theorem bulkIndex_batches_counterexample:
  "normalizes (article ''1'' ''2024-01-15T10:30:00'') \<and>
   normalizes (article ''2'' ''2024-01-15T10:30:00'') \<and>
   length (bulk_calls (snd (bulkIndex_sized 1 marshal_id rejecting_store
     [article ''1'' ''2024-01-15T10:30:00'', article ''2'' ''2024-01-15T10:30:00'']))) = 1 \<and>
   (2 + 1 - 1) div 1 = (2 :: nat)"
proof -
  have two: "(2 + 1 - 1) div 1 = (2 :: nat)" by simp
  have calls: "length (bulk_calls (snd (bulkIndex_sized 1 marshal_id rejecting_store
     [article ''1'' ''2024-01-15T10:30:00'', article ''2'' ''2024-01-15T10:30:00'']))) = 1"
    by (simp add: bulkIndex_sized_def article_def sample_date_normalizes
        marshal_id_def flushBulk_def rejecting_store_def meta_line_def Let_def)
  show ?thesis
    using two calls sample_normalizes [of "''1''"] sample_normalizes [of "''2''"] by blast
qed

text \<open>
  C1, amended: for N articles whose dates all normalise and whose documents all serialise,
  a batch size B, and a store that accepts every batch, the pipeline succeeds and issues
  exactly ceil(N/B) submissions, the consecutive batches of B records; the last one carries
  the last N mod B records when N is not a multiple of B and the last B records when it
  is; no submission is empty, and the buffer is empty at the end.
\<close>

theorem bulkIndex_batches:
  assumes "0 < B"
    and "\<forall>a\<in>set articles. normalizes a"
    and "\<forall>a\<in>set articles. serialises Marshal a"
    and "accepts_all es [] (map (payload_of Marshal) (chunks B articles))"
  shows "fst (bulkIndex_sized B Marshal es articles) = None \<and>
         buf (snd (bulkIndex_sized B Marshal es articles)) = [] \<and>
         bulk_calls (snd (bulkIndex_sized B Marshal es articles)) =
           map (payload_of Marshal) (chunks B articles) \<and>
         length (bulk_calls (snd (bulkIndex_sized B Marshal es articles))) =
           (length articles + B - 1) div B \<and>
         (articles \<noteq> [] \<longrightarrow>
            last (bulk_calls (snd (bulkIndex_sized B Marshal es articles))) =
              payload_of Marshal
                (drop (length articles -
                         (if length articles mod B = 0 then B else length articles mod B))
                   articles)) \<and>
         [] \<notin> set (bulk_calls (snd (bulkIndex_sized B Marshal es articles)))"
proof -
  have run: "bulkIndex_sized B Marshal es articles =
      (None, \<lparr>buf = [], bulk_calls = map (payload_of Marshal) (chunks B articles)\<rparr>)"
    using assms by (intro bulkIndex_all_accepted) simp_all
  have ne: "articles \<noteq> [] \<Longrightarrow> chunks B articles \<noteq> []"
    using assms(1) by (subst chunks.simps) simp
  have last_call: "articles \<noteq> [] \<Longrightarrow>
      last (map (payload_of Marshal) (chunks B articles)) =
        payload_of Marshal
          (drop (length articles - (if length articles mod B = 0 then B else length articles mod B))
             articles)"
    using ne last_chunks [OF assms(1), of articles] by (simp add: last_map)
  have no_empty: "[] \<notin> set (map (payload_of Marshal) (chunks B articles))"
  proof
    assume "[] \<in> set (map (payload_of Marshal) (chunks B articles))"
    then obtain c where c: "c \<in> set (chunks B articles)" "[] = payload_of Marshal c"
      by auto
    from c(2) [symmetric] have "c = []" by simp
    with chunks_nonempty [OF c(1)] show False by simp
  qed
  show ?thesis
    using last_call no_empty by (simp add: run length_chunks [OF assms(1)])
qed

theorem bulkIndex_batches_witness:
  "bulk_calls (snd (bulkIndex_sized 2 marshal_id accepting_store
     [article ''1'' ''2024-01-15T10:30:00'', article ''2'' ''2024-01-15T10:30:00'',
      article ''3'' ''2024-01-15T10:30:00''])) =
   [payload_of marshal_id [article ''1'' ''2024-01-15T10:30:00'', article ''2'' ''2024-01-15T10:30:00''],
    payload_of marshal_id [article ''3'' ''2024-01-15T10:30:00'']]"
proof -
  have ch: "chunks 2 [article ''1'' ''2024-01-15T10:30:00'', article ''2'' ''2024-01-15T10:30:00'',
      article ''3'' ''2024-01-15T10:30:00''] =
    [[article ''1'' ''2024-01-15T10:30:00'', article ''2'' ''2024-01-15T10:30:00''],
     [article ''3'' ''2024-01-15T10:30:00'']]"
    by (simp add: chunks.simps)
  show ?thesis
    using bulkIndex_batches [of 2
        "[article ''1'' ''2024-01-15T10:30:00'', article ''2'' ''2024-01-15T10:30:00'',
          article ''3'' ''2024-01-15T10:30:00'']" marshal_id accepting_store]
    by (simp add: ch sample_normalizes sample_serialises accepted_def accepting_store_def)
qed

text \<open>
  C3, as stated: when record k fails date normalisation, flushes 1 to ceil((k-1)/B) have
  been submitted. It is false with the program's batch size 500 at k = 2: the first record
  is in the buffer, not submitted, when the second one fails, and the pipeline returns the
  error without any submission, while ceil(1/500) is 1.
\<close>

theorem bulkIndex_date_failure_counterexample:
  "fst (bulkIndex marshal_id accepting_store
          [article ''1'' ''2024-01-15T10:30:00'', article ''2'' ''not-a-date'']) =
     Some (DateParseError Mismatch) \<and>
   bulk_calls (snd (bulkIndex marshal_id accepting_store
          [article ''1'' ''2024-01-15T10:30:00'', article ''2'' ''not-a-date''])) = [] \<and>
   ((2 - 1) + bulkSize - 1) div bulkSize = 1"
  by (simp add: bulkIndex_def bulkIndex_sized_def bulkSize_def article_def
      sample_date_normalizes not_a_date_fails marshal_id_def Let_def)

text \<open>
  C3, amended: when record k is the first whose date fails to normalise, the records
  before it serialise and the store accepts each batch, the pipeline has submitted exactly
  floor((k-1)/B) flushes, each of B of the records before record k, in order; the (k-1) mod B
  records after them are in the buffer and are never submitted; no flush contains record k
  or a later record; the pipeline returns the normalisation error at once, without
  appending record k.
\<close>

theorem bulkIndex_date_failure_batches:
  assumes "0 < B"
    and "\<forall>a\<in>set pre. normalizes a \<and> serialises Marshal a"
    and "NormalizeToESDate (PublicationDate bad) = (out, Some err)"
    and "accepts_all es [] (map (payload_of Marshal) (whole_batches B pre))"
  shows "bulkIndex_sized B Marshal es (pre @ bad # post) =
           (Some (DateParseError err),
            \<lparr>buf = payload_of Marshal (remainder B pre),
             bulk_calls = map (payload_of Marshal) (whole_batches B pre)\<rparr>) \<and>
         length (whole_batches B pre) = length pre div B \<and>
         (\<forall>b\<in>set (whole_batches B pre). length b = B) \<and>
         concat (whole_batches B pre) @ remainder B pre = pre \<and>
         length (remainder B pre) = length pre mod B"
  using bulkIndex_date_failure [OF assms] whole_batches_props [OF assms(1), of pre]
    length_remainder [OF assms(1), of pre]
  by simp

theorem bulkIndex_date_failure_batches_witness:
  "bulkIndex_sized 2 marshal_id accepting_store
     [article ''1'' ''2024-01-15T10:30:00'', article ''2'' ''2024-01-15T10:30:00'',
      article ''3'' ''2024-01-15T10:30:00'', article ''4'' ''not-a-date'',
      article ''5'' ''2024-01-15T10:30:00''] =
   (Some (DateParseError Mismatch),
    \<lparr>buf = payload_of marshal_id [article ''3'' ''2024-01-15T10:30:00''],
     bulk_calls = [payload_of marshal_id
        [article ''1'' ''2024-01-15T10:30:00'', article ''2'' ''2024-01-15T10:30:00'']]\<rparr>)"
proof -
  have wb: "whole_batches 2 [article ''1'' ''2024-01-15T10:30:00'', article ''2'' ''2024-01-15T10:30:00'',
      article ''3'' ''2024-01-15T10:30:00''] =
    [[article ''1'' ''2024-01-15T10:30:00'', article ''2'' ''2024-01-15T10:30:00'']]"
    by (simp add: whole_batches_def chunks.simps)
  have rm: "remainder 2 [article ''1'' ''2024-01-15T10:30:00'', article ''2'' ''2024-01-15T10:30:00'',
      article ''3'' ''2024-01-15T10:30:00''] = [article ''3'' ''2024-01-15T10:30:00'']"
    by (simp add: remainder_def)
  have bad: "NormalizeToESDate (PublicationDate (article ''4'' ''not-a-date'')) = ('''', Some Mismatch)"
    by (simp add: article_def not_a_date_fails)
  show ?thesis
    using bulkIndex_date_failure_batches [of 2
        "[article ''1'' ''2024-01-15T10:30:00'', article ''2'' ''2024-01-15T10:30:00'',
          article ''3'' ''2024-01-15T10:30:00'']" marshal_id "article ''4'' ''not-a-date''"
        "''''" Mismatch accepting_store "[article ''5'' ''2024-01-15T10:30:00'']"]
    by (simp add: wb rm bad sample_normalizes sample_serialises accepted_def accepting_store_def)
qed

text \<open>
  C7. For every index name: when the existence check reports status 200,
  \<^verbatim>\<open>createMappingsSettings\<close> returns nil at once and the existence request is all it has
  sent; a create request is sent exactly when the check reports another status.
\<close>

theorem createMappingsSettings_existing_index:
  "(indicesExists es index = ExistsStatus 200 \<longrightarrow>
      createMappingsSettings index es = (Returned None, [ExistsRequest index])) \<and>
   (CreateRequest index \<in> set (snd (createMappingsSettings index es)) \<longleftrightarrow>
      (\<exists>code. indicesExists es index = ExistsStatus code \<and> code \<noteq> 200))"
  by (auto simp add: createMappingsSettings_def split: exists_result.splits create_result.splits)

theorem createMappingsSettings_existing_index_witness:
  "createMappingsSettings ''inshorts-news'' (sample_env (ExistsStatus 200) (CreateFailed ''refused'')) =
     (Returned None, [ExistsRequest ''inshorts-news''])"
  using createMappingsSettings_existing_index
    [of "sample_env (ExistsStatus 200) (CreateFailed ''refused'')" "''inshorts-news''"]
  by (simp add: sample_env_def)




text \<open>
  C9, as stated: the action-metadata line is the identifier interpolated as it is,
  so the payload is one well-formed JSON object per line only when no identifier holds a
  double quote, a backslash or a line feed. Neither direction holds: a tab is none of the
  three and breaks the line, since a JSON string admits no byte below \<^verbatim>\<open>0x20\<close>; two
  backslashes read as one escaped backslash and leave the line well formed.
\<close>

theorem payload_object_per_line_counterexample:
  "no_quote_backslash_newline [CHR 0x09]
   \<and> marshals_object_line marshal_empty_object (article [CHR 0x09] ''2024-01-15T10:30:00'')
   \<and> \<not> object_per_line (payload_of marshal_empty_object [article [CHR 0x09] ''2024-01-15T10:30:00''])
   \<and> \<not> no_quote_backslash_newline [CHR 0x5C, CHR 0x5C]
   \<and> object_per_line (payload_of marshal_empty_object [article [CHR 0x5C, CHR 0x5C] ''2024-01-15T10:30:00''])"
  by (simp add: payload_eval scan_eval)

text \<open>
  C9, amended: the action-metadata line is the identifier placed as it is between
  the two fixed pieces of text. When the identifier holds no double quote, no backslash
  and no byte below \<^verbatim>\<open>0x20\<close> (line feed included), the line is one JSON object on one
  line; when this holds of every identifier and every document is serialised as a JSON
  object without a line feed, the payload is one JSON object per line. For the identifier
  made of one double quote the line is not a JSON object.
\<close>

theorem payload_object_per_line:
  \<open>meta_line ident = ''{ "index": { "_index": "inshorts-news", "_id": "'' @ ident @ ''" } }'' @ [CHR 0x0A]
   \<and> (plain_string_content ident \<longrightarrow> object_per_line (meta_line ident))
   \<and> (list_all (\<lambda>a. plain_string_content (ID a)) articles
        \<and> list_all (marshals_object_line Marshal) articles
        \<longrightarrow> object_per_line (payload_of Marshal articles))
   \<and> \<not> no_quote_backslash_newline [CHR 0x22]
   \<and> \<not> object_per_line (meta_line [CHR 0x22])\<close>
proof -
  have interpolation:
    \<open>meta_line ident = ''{ "index": { "_index": "inshorts-news", "_id": "'' @ ident @ ''" } }'' @ [CHR 0x0A]\<close>
    by (simp add: meta_line_def indexName_def)
  have line: "plain_string_content ident \<longrightarrow> object_per_line (meta_line ident)"
    using object_per_line_meta_line [of ident "[]"] by (simp add: object_per_line_Nil)
  have payload: "list_all (\<lambda>a. plain_string_content (ID a)) articles
        \<and> list_all (marshals_object_line Marshal) articles
        \<longrightarrow> object_per_line (payload_of Marshal articles)"
    using object_per_line_payload_of [of articles Marshal] by simp
  have quote: "\<not> no_quote_backslash_newline [CHR 0x22]"
    by (simp add: no_quote_backslash_newline_def)
  have broken: "\<not> object_per_line (meta_line [CHR 0x22])"
    by (simp add: payload_eval scan_eval)
  from interpolation line payload quote broken show ?thesis
    by (intro conjI)
qed

theorem payload_object_per_line_witness:
  "plain_string_content ''42''
   \<and> object_per_line (meta_line ''42'')
   \<and> list_all (\<lambda>a. plain_string_content (ID a)) [article ''42'' ''2024-01-15T10:30:00'']
   \<and> list_all (marshals_object_line marshal_empty_object) [article ''42'' ''2024-01-15T10:30:00'']
   \<and> object_per_line (payload_of marshal_empty_object [article ''42'' ''2024-01-15T10:30:00''])"
  using payload_object_per_line [of "''42''" "[article ''42'' ''2024-01-15T10:30:00'']" marshal_empty_object]
  by (simp add: payload_eval scan_eval)

end
